(* ===== verification/Prelude.thy ===== *)
theory Prelude
  imports Main "HOL-Library.Sublist" "HOL-Library.Multiset" "HOL-Library.Word"
begin

section \<open>Prelude: types, collections of facts and the shared interfaces\<close>

text \<open>
  What every component of the development uses: the names of the machine types, the named
  collections of facts the component proofs run on, generic facts on lists, and the
  interfaces that more than one component implements:
  \<^item> \<open>step_system\<close>: a transition relation with an inductive invariant;
  \<^item> \<open>simulation\<close>: a labelled system whose traces are traces of another;
  \<^item> \<open>prefix_table\<close>: a routing table answering longest-prefix queries, implemented by
    the proxy table (src/proxy/mod.rs) and by the WASM table (src/wasm/mod.rs).
\<close>

subsection \<open>Machine types\<close>

text \<open>
  A Rust \<open>u8\<close> inside a byte buffer or a \<open>str\<close> is a HOL \<open>char\<close>, which has exactly
  256 values; a \<open>str\<close>, a \<open>String\<close> and a \<open>Vec<u8>\<close> are therefore lists of \<open>char\<close>,
  and \<open>as_bytes\<close> is the identity. Numbers the code computes with keep their width.
\<close>

type_synonym bytes = string
type_synonym u16 = "16 word"
type_synonym u32 = "32 word"
type_synonym u64 = "64 word"
type_synonym usize = "64 word"

named_theorems str_simps "evaluation and characterisation of the str operations"
named_theorems keeps "operations that keep an invariant"

subsection \<open>Generic facts on lists\<close>

lemma takeWhile_append_dropWhile_hit:
  "c \<in> set s \<Longrightarrow> \<exists>rest. s = takeWhile ((\<noteq>) c) s @ c # rest \<and> dropWhile ((\<noteq>) c) s = c # rest"
  by (induction s) auto

lemma dropWhile_neq_Nil_iff: "dropWhile ((\<noteq>) c) s = [] \<longleftrightarrow> c \<notin> set s"
  by (auto simp: dropWhile_eq_Nil_conv)

lemma takeWhile_neq_notin [simp]: "c \<notin> set (takeWhile ((\<noteq>) c) s)"
  by (auto dest: set_takeWhileD)

lemma takeWhile_neq_append_hit [simp]:
  "c \<notin> set a \<Longrightarrow> takeWhile ((\<noteq>) c) (a @ c # b) = a"
  by (induction a) auto

lemma dropWhile_neq_append_hit [simp]:
  "c \<notin> set a \<Longrightarrow> dropWhile ((\<noteq>) c) (a @ c # b) = c # b"
  by (induction a) auto

lemma set_mono_sublist: "sublist xs ys \<Longrightarrow> set xs \<subseteq> set ys"
  by (auto simp: sublist_def)

lemma distinct_map_fst_inj: "distinct (map fst m) \<Longrightarrow> (k, v) \<in> set m \<Longrightarrow> (k, w) \<in> set m \<Longrightarrow> v = w"
  by (metis eq_key_imp_eq_value)

subsection \<open>\<open>Iterator::max_by_key\<close>\<close>

text \<open>
  \<open>max_by_key\<close> keeps the running maximum and replaces it when the next key is greater
  or equal, so that the last of several maximal elements is returned.
\<close>

fun max_by_from :: "('a \<Rightarrow> nat) \<Rightarrow> 'a \<Rightarrow> 'a list \<Rightarrow> 'a" where
  "max_by_from f b [] = b"
| "max_by_from f b (x # xs) = max_by_from f (if f b \<le> f x then x else b) xs"

fun max_by_key :: "('a \<Rightarrow> nat) \<Rightarrow> 'a list \<Rightarrow> 'a option" where
  "max_by_key f [] = None"
| "max_by_key f (x # xs) = Some (max_by_from f x xs)"

lemma max_by_from_in: "max_by_from f b xs \<in> insert b (set xs)"
proof (induction xs arbitrary: b)
  case (Cons x xs)
  then show ?case using Cons [of x] Cons [of b] by auto
qed simp

lemma max_by_from_ge_init: "f b \<le> f (max_by_from f b xs)"
proof (induction xs arbitrary: b)
  case (Cons x xs)
  show ?case using Cons [of x] Cons [of b] by (cases "f b \<le> f x") auto
qed simp

lemma max_by_from_ge: "y \<in> set xs \<Longrightarrow> f y \<le> f (max_by_from f b xs)"
proof (induction xs arbitrary: b)
  case (Cons x xs)
  have "f x \<le> f (max_by_from f b (x # xs))"
    using max_by_from_ge_init [of f x xs] max_by_from_ge_init [of f b xs] by auto
  then show ?case using Cons by auto
qed simp

lemma max_by_key_None [simp]: "max_by_key f xs = None \<longleftrightarrow> xs = []"
  by (cases xs) auto

lemma max_by_key_in: "max_by_key f xs = Some x \<Longrightarrow> x \<in> set xs"
  using max_by_from_in [of f "hd xs" "tl xs"] by (cases xs) auto

lemma max_by_key_ge: "max_by_key f xs = Some x \<Longrightarrow> y \<in> set xs \<Longrightarrow> f y \<le> f x"
  using max_by_from_ge [of y "tl xs" f "hd xs"] max_by_from_ge_init [of f "hd xs" "tl xs"]
  by (cases xs) auto

lemma max_by_from_map: "g (max_by_from (f \<circ> g) b xs) = max_by_from f (g b) (map g xs)"
  by (induction xs arbitrary: b) auto

lemma max_by_key_map: "max_by_key f (map g xs) = map_option g (max_by_key (f \<circ> g) xs)"
  by (cases xs) (auto simp: max_by_from_map)

subsection \<open>Interface: a transition system with an inductive invariant\<close>

locale step_system =
  fixes initial :: "'s \<Rightarrow> bool" and step :: "'s \<Rightarrow> 's \<Rightarrow> bool" and inv :: "'s \<Rightarrow> bool"
  assumes initial_inv: "initial s \<Longrightarrow> inv s"
    and step_inv: "inv s \<Longrightarrow> step s t \<Longrightarrow> inv t"
begin

lemma steps_inv: "step\<^sup>*\<^sup>* s t \<Longrightarrow> inv s \<Longrightarrow> inv t"
  by (induction rule: rtranclp_induct) (auto intro: step_inv)

lemma reachable_inv: "initial s \<Longrightarrow> step\<^sup>*\<^sup>* s t \<Longrightarrow> inv t"
  by (blast intro: steps_inv initial_inv)

end

subsection \<open>Interface: simulation of labelled systems\<close>

text \<open>
  A labelled system steps with a visible event or silently (\<open>None\<close>); a trace is the list of
  the events of a run.
\<close>

definition visible :: "'e option \<Rightarrow> 'e list" where
  "visible l = (case l of None \<Rightarrow> [] | Some e \<Rightarrow> [e])"

lemma visible_simps [simp]: "visible None = []" "visible (Some e) = [e]"
  by (simp_all add: visible_def)

inductive trace :: "('s \<Rightarrow> 'e option \<Rightarrow> 's \<Rightarrow> bool) \<Rightarrow> 's \<Rightarrow> 'e list \<Rightarrow> 's \<Rightarrow> bool" for step where
  trace_nil: "trace step s [] s"
| trace_step: "trace step s es t \<Longrightarrow> step t l u \<Longrightarrow> trace step s (es @ visible l) u"

lemma trace_one: "step s l t \<Longrightarrow> trace step s (visible l) t"
  using trace_step [OF trace_nil] by fastforce

lemma trace_append: "trace step t fs u \<Longrightarrow> trace step s es t \<Longrightarrow> trace step s (es @ fs) u"
proof (induction rule: trace.induct)
  case (trace_step t' fs u l v)
  then show ?case using trace.trace_step by fastforce
qed simp

text \<open>
  One system simulates another if each step from related states is matched by a run with the
  same visible events to related states.
\<close>

locale simulation =
  fixes step :: "'a \<Rightarrow> 'e option \<Rightarrow> 'a \<Rightarrow> bool" and abs_step :: "'b \<Rightarrow> 'e option \<Rightarrow> 'b \<Rightarrow> bool"
    and rel :: "'a \<Rightarrow> 'b \<Rightarrow> bool"
  assumes step_simulated: "rel s x \<Longrightarrow> step s l t \<Longrightarrow> \<exists>y. trace abs_step x (visible l) y \<and> rel t y"
begin

lemma trace_simulated:
  assumes "trace step s es t" and "rel s x"
  shows "\<exists>y. trace abs_step x es y \<and> rel t y"
  using assms
proof (induction rule: trace.induct)
  case trace_nil
  then show ?case using trace.trace_nil by fast
next
  case (trace_step s es t l u)
  then obtain y where y: "trace abs_step x es y" "rel t y" by blast
  from step_simulated [OF y(2) trace_step.hyps(2)] obtain z where z: "trace abs_step y (visible l) z" "rel u z" by blast
  show ?case using trace_append [OF z(1) y(1)] z(2) by blast
qed

end

subsection \<open>Interface: longest-prefix routing tables\<close>

text \<open>
  The contract of \<open>match_route\<close>: the answer is a route of the table whose prefix starts
  the path, no route with a longer prefix does, and there is no answer only if no route's
  prefix starts the path.
\<close>

locale prefix_table =
  fixes routes :: "'t \<Rightarrow> 'r list" and prefix_of :: "'r \<Rightarrow> string"
    and lookup :: "'t \<Rightarrow> string \<Rightarrow> 'r option"
  assumes lookup_in: "lookup t p = Some r \<Longrightarrow> r \<in> set (routes t)"
    and lookup_prefix: "lookup t p = Some r \<Longrightarrow> prefix (prefix_of r) p"
    and lookup_longest: "lookup t p = Some r \<Longrightarrow> r' \<in> set (routes t) \<Longrightarrow> prefix (prefix_of r') p \<Longrightarrow>
        length (prefix_of r') \<le> length (prefix_of r)"
    and lookup_total: "r' \<in> set (routes t) \<Longrightarrow> prefix (prefix_of r') p \<Longrightarrow> lookup t p \<noteq> None"
begin

lemma lookup_None_iff: "lookup t p = None \<longleftrightarrow> (\<forall>r \<in> set (routes t). \<not> prefix (prefix_of r) p)"
proof
  assume "lookup t p = None"
  then show "\<forall>r \<in> set (routes t). \<not> prefix (prefix_of r) p" using lookup_total by blast
next
  assume none: "\<forall>r \<in> set (routes t). \<not> prefix (prefix_of r) p"
  show "lookup t p = None"
  proof (rule ccontr)
    assume "lookup t p \<noteq> None"
    then obtain r where "lookup t p = Some r" by blast
    then show False using none lookup_in lookup_prefix by blast
  qed
qed

lemma lookup_prefix_unique:
  assumes "lookup t p = Some r" and "r' \<in> set (routes t)" and "prefix (prefix_of r') p"
    and "length (prefix_of r) \<le> length (prefix_of r')"
  shows "prefix_of r' = prefix_of r"
proof -
  have "length (prefix_of r') = length (prefix_of r)"
    using assms lookup_longest by (simp add: le_antisym)
  then show ?thesis
    using assms(3) lookup_prefix [OF assms(1)] by (metis append_eq_append_conv prefixE)
qed

text \<open>
  With pairwise different prefixes the answer is determined by the set of routes: the
  order in which they were pushed into the table does not matter.
\<close>

lemma lookup_determined:
  assumes set: "set (routes t) = set (routes u)" and inj: "inj_on prefix_of (set (routes t))"
  shows "lookup t p = lookup u p"
proof (cases "lookup t p")
  case None
  then have "lookup u p = None" using set by (simp add: lookup_None_iff)
  then show ?thesis using None by simp
next
  case (Some r)
  then obtain s where s: "lookup u p = Some s"
    using set by (metis lookup_None_iff lookup_in lookup_prefix option.exhaust)
  have r_in: "r \<in> set (routes u)" and s_in: "s \<in> set (routes t)"
    using lookup_in [OF Some] lookup_in [OF s] set by auto
  have "length (prefix_of r) \<le> length (prefix_of s)"
    by (rule lookup_longest [OF s r_in lookup_prefix [OF Some]])
  then have "prefix_of s = prefix_of r"
    by (rule lookup_prefix_unique [OF Some s_in lookup_prefix [OF s]])
  then have "s = r" using inj s_in lookup_in [OF Some] by (auto dest: inj_onD)
  then show ?thesis using Some s by simp
qed

end

text \<open>Both tables answer with \<open>max_by_key\<close> over a filter; this is all the contract needs.\<close>

lemma longest_match_facts:
  assumes "lookup = (\<lambda>p. max_by_key (\<lambda>r. length (prefix_of r)) (filter (\<lambda>r. prefix (prefix_of r) p) rs))"
  shows "lookup p = Some r \<Longrightarrow> r \<in> set rs"
    and "lookup p = Some r \<Longrightarrow> prefix (prefix_of r) p"
    and "lookup p = Some r \<Longrightarrow> r' \<in> set rs \<Longrightarrow> prefix (prefix_of r') p \<Longrightarrow>
           length (prefix_of r') \<le> length (prefix_of r)"
    and "r' \<in> set rs \<Longrightarrow> prefix (prefix_of r') p \<Longrightarrow> lookup p \<noteq> None"
  using assms by (auto dest: max_by_key_in max_by_key_ge simp: filter_empty_conv)

end
