(* ===== verification/Rust_Utf8.thy ===== *)
theory Rust_Utf8
  imports Prelude
begin

section \<open>UTF-8 in Rust's standard library\<close>

text \<open>
  A Rust \<open>str\<close> is a byte sequence that is valid UTF-8; the code crosses the border between
  bytes and \<open>str\<close> in three ways: \<open>String::from_utf8_lossy\<close> (percent decoding, upstream
  status lines), \<open>std::str::from_utf8\<close> (hex digits) and \<open>read_line\<close>/\<open>read_to_string\<close>,
  which fail on invalid bytes. All three follow one scanner, \<open>utf8_next\<close>: it looks at the
  front of the buffer and says whether a well-formed character starts there and how many bytes
  the character, or the maximal ill-formed part, has.
\<close>

abbreviation byte :: "char \<Rightarrow> nat" where "byte \<equiv> of_char"

definition byte_at :: "nat \<Rightarrow> nat \<Rightarrow> nat \<Rightarrow> bytes \<Rightarrow> bool" where
  "byte_at k lo hi bs = (k < length bs \<and> lo \<le> byte (bs ! k) \<and> byte (bs ! k) \<le> hi)"

definition second3_ok :: "nat \<Rightarrow> bytes \<Rightarrow> bool" where
  "second3_ok n bs =
     (if n = 0xE0 then byte_at 0 0xA0 0xBF bs
      else if n = 0xED then byte_at 0 0x80 0x9F bs
      else byte_at 0 0x80 0xBF bs)"

definition second4_ok :: "nat \<Rightarrow> bytes \<Rightarrow> bool" where
  "second4_ok n bs =
     (if n = 0xF0 then byte_at 0 0x90 0xBF bs
      else if n = 0xF4 then byte_at 0 0x80 0x8F bs
      else byte_at 0 0x80 0xBF bs)"

definition utf8_next :: "bytes \<Rightarrow> bool \<times> nat" where
  "utf8_next bs = (case bs of [] \<Rightarrow> (False, 0) | b # r \<Rightarrow>
     (let n = byte b in
      if n < 0x80 then (True, 1)
      else if n < 0xC2 then (False, 1)
      else if n < 0xE0 then
        (if byte_at 0 0x80 0xBF r then (True, 2) else (False, 1))
      else if n < 0xF0 then
        (if \<not> second3_ok n r then (False, 1)
         else if \<not> byte_at 1 0x80 0xBF r then (False, 2) else (True, 3))
      else if n < 0xF5 then
        (if \<not> second4_ok n r then (False, 1)
         else if \<not> byte_at 1 0x80 0xBF r then (False, 2)
         else if \<not> byte_at 2 0x80 0xBF r then (False, 3) else (True, 4))
      else (False, 1)))"

lemma utf8_next_pos: "bs \<noteq> [] \<Longrightarrow> 0 < snd (utf8_next bs)"
  by (cases bs) (auto simp: utf8_next_def Let_def)

lemma byte_at_length: "byte_at k lo hi bs \<Longrightarrow> k < length bs"
  by (simp add: byte_at_def)

lemma byte_at_take: "byte_at k lo hi t \<Longrightarrow> k < m \<Longrightarrow> byte_at k lo hi (take m t @ r)"
  by (auto simp: byte_at_def nth_append)

lemma second_ok_length:
  "second3_ok n bs \<Longrightarrow> 0 < length bs" "second4_ok n bs \<Longrightarrow> 0 < length bs"
  by (auto simp: second3_ok_def second4_ok_def dest: byte_at_length split: if_splits)

lemma second_ok_take:
  "second3_ok n t \<Longrightarrow> 0 < m \<Longrightarrow> second3_ok n (take m t @ r)"
  "second4_ok n t \<Longrightarrow> 0 < m \<Longrightarrow> second4_ok n (take m t @ r)"
  by (auto simp: second3_ok_def second4_ok_def byte_at_take split: if_splits)

lemma utf8_next_le: "snd (utf8_next bs) \<le> length bs"
proof (cases bs)
  case (Cons b r)
  then show ?thesis
    by (auto simp: utf8_next_def Let_def Suc_le_eq dest!: second_ok_length byte_at_length)
qed (simp add: utf8_next_def)

text \<open>\<open>std::str::from_utf8(..).is_ok()\<close>: every character is well-formed.\<close>

function utf8_valid :: "bytes \<Rightarrow> bool" where
  "utf8_valid bs =
     (if bs = [] then True
      else if fst (utf8_next bs) then utf8_valid (drop (snd (utf8_next bs)) bs)
      else False)"
  by pat_completeness auto
termination
  by (relation "measure length") (simp_all add: utf8_next_pos diff_less)

text \<open>
  \<open>String::from_utf8_lossy\<close>: well-formed characters are copied, each maximal ill-formed
  part becomes one U+FFFD (the bytes EF BF BD).
\<close>

definition fffd :: bytes where
  "fffd = [CHR 0xEF, CHR 0xBF, CHR 0xBD]"

function from_utf8_lossy :: "bytes \<Rightarrow> string" where
  "from_utf8_lossy bs =
     (if bs = [] then []
      else (if fst (utf8_next bs) then take (snd (utf8_next bs)) bs else fffd)
        @ from_utf8_lossy (drop (snd (utf8_next bs)) bs))"
  by pat_completeness auto
termination
  by (relation "measure length") (simp_all add: utf8_next_pos diff_less)

declare utf8_valid.simps [simp del] from_utf8_lossy.simps [simp del]

lemma utf8_valid_Nil [simp]: "utf8_valid []"
  by (simp add: utf8_valid.simps [of "[]"])

lemma from_utf8_lossy_Nil [simp]: "from_utf8_lossy [] = []"
  by (simp add: from_utf8_lossy.simps [of "[]"])

lemma utf8_next_ascii: "byte b < 0x80 \<Longrightarrow> utf8_next (b # r) = (True, 1)"
  by (simp add: utf8_next_def)

lemma utf8_valid_ascii [simp]: "byte b < 0x80 \<Longrightarrow> utf8_valid (b # r) = utf8_valid r"
  by (subst utf8_valid.simps) (simp add: utf8_next_ascii)

lemma from_utf8_lossy_ascii [simp]:
  "byte b < 0x80 \<Longrightarrow> from_utf8_lossy (b # r) = b # from_utf8_lossy r"
  by (subst from_utf8_lossy.simps) (simp add: utf8_next_ascii)

definition ascii :: "string \<Rightarrow> bool" where
  "ascii s = (\<forall>c \<in> set s. byte c < 0x80)"

lemma ascii_simps [simp]:
  "ascii []" "ascii (c # s) \<longleftrightarrow> byte c < 0x80 \<and> ascii s" "ascii (s @ t) \<longleftrightarrow> ascii s \<and> ascii t"
  by (auto simp: ascii_def)

lemma utf8_valid_ascii_append [simp]: "ascii s \<Longrightarrow> utf8_valid (s @ r) = utf8_valid r"
  by (induction s) auto

lemma utf8_valid_of_ascii: "ascii s \<Longrightarrow> utf8_valid s"
  using utf8_valid_ascii_append [of s "[]"] by simp

lemma from_utf8_lossy_ascii_append [simp]:
  "ascii s \<Longrightarrow> from_utf8_lossy (s @ r) = s @ from_utf8_lossy r"
  by (induction s) auto

lemma from_utf8_lossy_of_ascii: "ascii s \<Longrightarrow> from_utf8_lossy s = s"
  using from_utf8_lossy_ascii_append [of s "[]"] by simp

subsection \<open>Lossy decoding is the identity on valid input and always yields valid output\<close>

text \<open>The verdict on a well-formed character depends on the bytes of that character only.\<close>

lemma utf8_next_take:
  assumes "utf8_next bs = (True, n)"
  shows "utf8_next (take n bs @ r) = (True, n)"
proof (cases bs)
  case (Cons b t)
  then show ?thesis using assms
    by (auto simp: utf8_next_def Let_def byte_at_take second_ok_take split: if_splits)
qed (use assms in \<open>simp add: utf8_next_def\<close>)

lemma utf8_valid_append_char:
  assumes "utf8_next bs = (True, n)" and "bs \<noteq> []"
  shows "utf8_valid (take n bs @ r) = utf8_valid r"
proof -
  have n: "0 < n" "n \<le> length bs" using utf8_next_pos [OF assms(2)] utf8_next_le [of bs] assms(1) by auto
  have ne: "take n bs @ r \<noteq> []" using n assms(2) by simp
  show ?thesis
    using ne n assms(2) by (simp add: utf8_valid.simps [of "take n bs @ r"] utf8_next_take [OF assms(1)])
qed

lemma utf8_valid_fffd [simp]: "utf8_valid (fffd @ r) = utf8_valid r"
proof -
  have "utf8_next (fffd @ r) = (True, 3)"
    by (simp add: fffd_def utf8_next_def second3_ok_def byte_at_def)
  then show ?thesis
    using utf8_valid_append_char [of "fffd @ r" 3 r] by (simp add: fffd_def)
qed

lemma from_utf8_lossy_valid: "utf8_valid (from_utf8_lossy bs)"
proof (induction bs rule: from_utf8_lossy.induct)
  case (1 bs)
  show ?case
  proof (cases "bs = []")
    case False
    obtain ok n where step: "utf8_next bs = (ok, n)" by (cases "utf8_next bs")
    have "utf8_valid (from_utf8_lossy (drop n bs))"
      using 1 [OF False] step by auto
    then show ?thesis
      using step False
      by (subst from_utf8_lossy.simps) (auto simp: utf8_valid_append_char)
  qed simp
qed

lemma from_utf8_lossy_id: "utf8_valid bs \<Longrightarrow> from_utf8_lossy bs = bs"
proof (induction bs rule: from_utf8_lossy.induct)
  case (1 bs)
  show ?case
  proof (cases "bs = []")
    case False
    obtain n where step: "utf8_next bs = (True, n)"
      using "1.prems" False by (cases "utf8_next bs") (auto simp: utf8_valid.simps [of bs] split: if_splits)
    have "utf8_valid (drop n bs)"
      using "1.prems" False step by (simp add: utf8_valid.simps [of bs])
    then have "from_utf8_lossy (drop n bs) = drop n bs"
      using "1.IH" [OF False] step by auto
    then show ?thesis using step False by (subst from_utf8_lossy.simps) simp
  qed simp
qed

lemma utf8_valid_append: "utf8_valid s \<Longrightarrow> utf8_valid (s @ t) = utf8_valid t"
proof (induction s rule: utf8_valid.induct)
  case (1 s)
  show ?case
  proof (cases "s = []")
    case False
    obtain n where step: "utf8_next s = (True, n)"
      using "1.prems" False by (cases "utf8_next s") (auto simp: utf8_valid.simps [of s] split: if_splits)
    have "utf8_valid (drop n s)"
      using "1.prems" False step by (simp add: utf8_valid.simps [of s])
    then have IH: "utf8_valid (drop n s @ t) = utf8_valid t"
      using "1.IH" False step by simp
    have "utf8_valid (take n s @ (drop n s @ t)) = utf8_valid (drop n s @ t)"
      by (rule utf8_valid_append_char [OF step False])
    then show ?thesis using IH by (simp flip: append_assoc)
  qed simp
qed

text \<open>An ASCII byte is a character border, so it splits valid text into valid parts.\<close>

lemma byte_at_ge: "byte_at k lo hi bs \<Longrightarrow> 0x80 \<le> lo \<Longrightarrow> 0x80 \<le> byte (bs ! k)"
  by (simp add: byte_at_def)

lemma second_ok_ge:
  "second3_ok n bs \<Longrightarrow> 0x80 \<le> byte (bs ! 0)" "second4_ok n bs \<Longrightarrow> 0x80 \<le> byte (bs ! 0)"
  by (auto simp: second3_ok_def second4_ok_def dest!: byte_at_ge split: if_splits)

lemma utf8_next_tail: "utf8_next bs = (True, n) \<Longrightarrow> 0 < i \<Longrightarrow> i < n \<Longrightarrow> 0x80 \<le> byte (bs ! i)"
proof (cases bs)
  case (Cons b r)
  assume next_b: "utf8_next bs = (True, n)" and i: "0 < i" "i < n"
  have "n \<le> 4" using next_b by (auto simp: Cons utf8_next_def Let_def split: if_splits)
  then consider "i = 1" | "i = 2" | "i = 3" using i by linarith
  then show ?thesis
    using next_b i
    by cases (auto simp: Cons utf8_next_def Let_def numeral_2_eq_2 numeral_3_eq_3
        dest: second_ok_ge byte_at_ge split: if_splits)
qed (simp add: utf8_next_def)

lemma utf8_valid_split: "byte c < 0x80 \<Longrightarrow> utf8_valid (a @ c # b) \<Longrightarrow> utf8_valid a \<and> utf8_valid b"
proof (induction a rule: utf8_valid.induct)
  case (1 a)
  show ?case
  proof (cases "a = []")
    case False
    let ?s = "a @ c # b"
    obtain n where step: "utf8_next ?s = (True, n)"
      using "1.prems" by (cases "utf8_next ?s") (auto simp: utf8_valid.simps [of ?s] split: if_splits)
    have n: "n \<le> length a"
    proof (rule ccontr)
      assume "\<not> n \<le> length a"
      then show False using utf8_next_tail [OF step, of "length a"] False "1.prems"(1) by simp
    qed
    have a: "utf8_next a = (True, n)"
      using utf8_next_take [OF step, of "drop n a"] n by simp
    have "utf8_valid (drop n a @ c # b)"
      using "1.prems"(2) step n by (simp add: utf8_valid.simps [of ?s])
    then have "utf8_valid (drop n a) \<and> utf8_valid b"
      using "1.IH" False a "1.prems"(1) by simp
    then show ?thesis using False a by (simp add: utf8_valid.simps [of a])
  qed (use "1.prems" in simp)
qed

text \<open>
  An ASCII byte of the lossy text was a byte of the input: replacement introduces no
  ASCII character.
\<close>

lemma byte_fffd: "c \<in> set fffd \<Longrightarrow> \<not> byte c < 0x80"
  by (auto simp: fffd_def)

lemma from_utf8_lossy_ascii_origin:
  "c \<in> set (from_utf8_lossy bs) \<Longrightarrow> byte c < 0x80 \<Longrightarrow> c \<in> set bs"
proof (induction bs rule: from_utf8_lossy.induct)
  case (1 bs)
  obtain ok n where step: "utf8_next bs = (ok, n)" by (cases "utf8_next bs")
  have "bs \<noteq> []" using "1.prems" by auto
  with "1.prems" step consider "c \<in> set (take n bs)" | "c \<in> set fffd"
    | "c \<in> set (from_utf8_lossy (drop n bs))"
    by (subst (asm) from_utf8_lossy.simps) (auto split: if_splits)
  then show ?case
  proof cases
    case 3
    then show ?thesis using "1.IH" \<open>bs \<noteq> []\<close> step "1.prems"(2) by (auto dest: in_set_dropD)
  qed (use "1.prems" byte_fffd in \<open>auto dest: in_set_takeD\<close>)
qed

end
