(* ===== verification/Rust_Str.thy ===== *)
theory Rust_Str
  imports Rust_Utf8 "HOL-Library.Code_Target_Nat"
begin

section \<open>The \<open>str\<close> operations the code calls\<close>

text \<open>
  Each function is the standard library's method of the same name on UTF-8 bytes. Patterns are
  ASCII, so byte-wise search is search by character. Unicode whitespace is matched by its
  UTF-8 encoding: no encoding of a whitespace character starts with a continuation byte, so
  the scanners may advance by bytes.
\<close>

abbreviation LF :: char where "LF \<equiv> CHR 0x0A"
abbreviation CR :: char where "CR \<equiv> CHR 0x0D"
abbreviation crlf :: string where "crlf \<equiv> [CR, LF]"

subsection \<open>Whitespace: \<open>trim\<close>, \<open>trim_end\<close>, \<open>split_whitespace\<close>\<close>

definition ws1 :: "char \<Rightarrow> bool" where
  "ws1 a = (byte a = 0x20 \<or> (9 \<le> byte a \<and> byte a \<le> 13))"

definition ws2 :: "char \<Rightarrow> char \<Rightarrow> bool" where
  "ws2 a b = (byte a = 0xC2 \<and> (byte b = 0x85 \<or> byte b = 0xA0))"

definition ws3 :: "char \<Rightarrow> char \<Rightarrow> char \<Rightarrow> bool" where
  "ws3 a b c =
     ((byte a = 0xE1 \<and> byte b = 0x9A \<and> byte c = 0x80) \<or>
      (byte a = 0xE2 \<and> byte b = 0x80 \<and>
         ((0x80 \<le> byte c \<and> byte c \<le> 0x8A) \<or> byte c \<in> {0xA8, 0xA9, 0xAF})) \<or>
      (byte a = 0xE2 \<and> byte b = 0x81 \<and> byte c = 0x9F) \<or>
      (byte a = 0xE3 \<and> byte b = 0x80 \<and> byte c = 0x80))"

text \<open>The length of the whitespace character at the front (at the end, for \<open>ws_back\<close>); 0 if none.\<close>

definition ws_front :: "string \<Rightarrow> nat" where
  "ws_front s = (case s of [] \<Rightarrow> 0 | a # r \<Rightarrow>
     if ws1 a then 1
     else (case r of [] \<Rightarrow> 0 | b # r' \<Rightarrow>
       if ws2 a b then 2
       else (case r' of [] \<Rightarrow> 0 | c # _ \<Rightarrow> if ws3 a b c then 3 else 0)))"

definition ws_back :: "string \<Rightarrow> nat" where
  "ws_back r = (case r of [] \<Rightarrow> 0 | c # r' \<Rightarrow>
     if ws1 c then 1
     else (case r' of [] \<Rightarrow> 0 | b # r'' \<Rightarrow>
       if ws2 b c then 2
       else (case r'' of [] \<Rightarrow> 0 | a # _ \<Rightarrow> if ws3 a b c then 3 else 0)))"

lemma ws_front_pos_nonempty: "0 < ws_front s \<Longrightarrow> s \<noteq> []"
  by (auto simp: ws_front_def)

lemma ws_back_pos_nonempty: "0 < ws_back s \<Longrightarrow> s \<noteq> []"
  by (auto simp: ws_back_def)

function trim_start :: "string \<Rightarrow> string" where
  "trim_start s = (if 0 < ws_front s then trim_start (drop (ws_front s) s) else s)"
  by pat_completeness auto
termination
  by (relation "measure length") (simp_all add: ws_front_pos_nonempty diff_less)

function trim_back :: "string \<Rightarrow> string" where
  "trim_back r = (if 0 < ws_back r then trim_back (drop (ws_back r) r) else r)"
  by pat_completeness auto
termination
  by (relation "measure length") (simp_all add: ws_back_pos_nonempty diff_less)

declare trim_start.simps [simp del] trim_back.simps [simp del]

definition trim_end :: "string \<Rightarrow> string" where
  "trim_end s = rev (trim_back (rev s))"

definition trim :: "string \<Rightarrow> string" where
  "trim s = trim_end (trim_start s)"

text \<open>Words: \<open>w\<close> is the word being read, most recent byte first.\<close>

function words_from :: "string \<Rightarrow> string \<Rightarrow> string list" where
  "words_from w s =
     (if s = [] then (if w = [] then [] else [rev w])
      else if 0 < ws_front s then
        (if w = [] then [] else [rev w]) @ words_from [] (drop (ws_front s) s)
      else words_from (hd s # w) (tl s))"
  by pat_completeness auto
termination
  by (relation "measure (\<lambda>(w, s). length s)") (simp_all add: diff_less)

declare words_from.simps [simp del]

definition split_whitespace :: "string \<Rightarrow> string list" where
  "split_whitespace s = words_from [] s"

subsection \<open>Searching and splitting\<close>

text \<open>\<open>contains\<close> and the \<open>windows(n).position\<close> idiom.\<close>

fun contains :: "string \<Rightarrow> string \<Rightarrow> bool" where
  "contains [] p = (p = [])"
| "contains (c # s) p = (prefix p (c # s) \<or> contains s p)"

fun find_window :: "string \<Rightarrow> string \<Rightarrow> nat option" where
  "find_window [] p = (if p = [] then Some 0 else None)"
| "find_window (c # s) p =
     (if prefix p (c # s) then Some 0 else map_option Suc (find_window s p))"

definition split_once :: "char \<Rightarrow> string \<Rightarrow> (string \<times> string) option" where
  "split_once c s = (case dropWhile ((\<noteq>) c) s of [] \<Rightarrow> None
     | _ # v \<Rightarrow> Some (takeWhile ((\<noteq>) c) s, v))"

fun split_from :: "char \<Rightarrow> string \<Rightarrow> string \<Rightarrow> string list" where
  "split_from c w [] = [rev w]"
| "split_from c w (x # s) = (if x = c then rev w # split_from c [] s else split_from c (x # w) s)"

definition split_on :: "char \<Rightarrow> string \<Rightarrow> string list" where
  "split_on c s = split_from c [] s"

definition strip_prefix :: "string \<Rightarrow> string \<Rightarrow> string option" where
  "strip_prefix p s = (if prefix p s then Some (drop (length p) s) else None)"

definition trim_start_char :: "char \<Rightarrow> string \<Rightarrow> string" where
  "trim_start_char c s = dropWhile ((=) c) s"

definition trim_char :: "char \<Rightarrow> string \<Rightarrow> string" where
  "trim_char c s = rev (dropWhile ((=) c) (rev (dropWhile ((=) c) s)))"

function trim_start_str :: "string \<Rightarrow> string \<Rightarrow> string" where
  "trim_start_str p s =
     (if p \<noteq> [] \<and> prefix p s then trim_start_str p (drop (length p) s) else s)"
  by pat_completeness auto
termination
  by (relation "measure (\<lambda>(p, s). length s)") (auto simp: prefix_def)

declare trim_start_str.simps [simp del]

text \<open>\<open>lines()\<close>: a line ends at LF, and a CR right before that LF belongs to the line end.\<close>

definition strip_cr :: "string \<Rightarrow> string" where
  "strip_cr l = (if l \<noteq> [] \<and> last l = CR then butlast l else l)"

fun lines_from :: "string \<Rightarrow> string \<Rightarrow> string list" where
  "lines_from w [] = (if w = [] then [] else [rev w])"
| "lines_from w (x # s) =
     (if x = LF then strip_cr (rev w) # lines_from [] s else lines_from (x # w) s)"

definition lines :: "string \<Rightarrow> string list" where
  "lines s = lines_from [] s"

subsection \<open>Case\<close>

definition ascii_lower :: "char \<Rightarrow> char" where
  "ascii_lower c = (if 65 \<le> byte c \<and> byte c \<le> 90 then char_of (byte c + 32) else c)"

definition eq_ignore_ascii_case :: "string \<Rightarrow> string \<Rightarrow> bool" where
  "eq_ignore_ascii_case s t = (map ascii_lower s = map ascii_lower t)"

text \<open>
  \<open>str::to_lowercase\<close> on ASCII text is \<open>ascii_lower\<close> on each byte; on other text it consults
  the Unicode tables of the standard library, which are the parameter \<open>uni\<close>.
\<close>

definition to_lowercase :: "(string \<Rightarrow> string) \<Rightarrow> string \<Rightarrow> string" where
  "to_lowercase uni s = (if ascii s then map ascii_lower s else uni s)"

subsection \<open>Numbers: \<open>from_str_radix\<close>, \<open>parse\<close> and \<open>Display\<close>\<close>

definition digit_val :: "nat \<Rightarrow> char \<Rightarrow> nat option" where
  "digit_val radix c =
     (let n = byte c;
          v = (if 48 \<le> n \<and> n \<le> 57 then n - 48
               else if 97 \<le> n \<and> n \<le> 122 then n - 87
               else if 65 \<le> n \<and> n \<le> 90 then n - 55 else radix)
      in if v < radix then Some v else None)"

fun digits_from :: "nat \<Rightarrow> nat \<Rightarrow> string \<Rightarrow> nat option" where
  "digits_from radix acc [] = Some acc"
| "digits_from radix acc (c # s) =
     (case digit_val radix c of None \<Rightarrow> None | Some d \<Rightarrow> digits_from radix (acc * radix + d) s)"

text \<open>An optional plus sign, at least one digit, and a value that fits the width.\<close>

definition from_str_radix :: "nat \<Rightarrow> string \<Rightarrow> 'a::len word option" where
  "from_str_radix radix s =
     (let ds = (case s of c # r \<Rightarrow> if c = CHR ''+'' then r else s | [] \<Rightarrow> s)
      in if ds = [] then None
         else case digits_from radix 0 ds of None \<Rightarrow> None
              | Some v \<Rightarrow> if v < 2 ^ LENGTH('a) then Some (word_of_nat v) else None)"

abbreviation parse_uint :: "string \<Rightarrow> 'a::len word option" where
  "parse_uint \<equiv> from_str_radix 10"

fun show_nat :: "nat \<Rightarrow> string" where
  "show_nat n = (if n < 10 then [] else show_nat (n div 10)) @ [char_of (48 + n mod 10)]"

declare show_nat.simps [simp del]

abbreviation show_word :: "'a::len word \<Rightarrow> string" where
  "show_word w \<equiv> show_nat (unat w)"

subsection \<open>Facts: search\<close>

lemma contains_sublist [str_simps]: "contains s p = sublist p s"
proof (induction s)
  case (Cons c s)
  then show ?case by (simp add: sublist_Cons_right)
qed simp

lemma find_window_Some: "find_window s p = Some i \<Longrightarrow> prefix p (drop i s)"
proof (induction s arbitrary: i)
  case (Cons c s)
  then show ?case by (cases i) (auto split: if_splits)
qed (auto split: if_splits)

lemma find_window_None: "find_window s p = None \<longleftrightarrow> \<not> sublist p s"
proof (induction s)
  case (Cons c s)
  then show ?case by (simp add: sublist_Cons_right)
qed simp

lemma find_window_skip:
  "c \<notin> set l \<Longrightarrow> find_window (l @ s) (c # p) = map_option ((+) (length l)) (find_window s (c # p))"
proof (induction l)
  case Nil
  then show ?case by (cases "find_window s (c # p)") auto
next
  case (Cons x l)
  then show ?case by (cases "find_window s (c # p)") auto
qed

lemma split_once_Some [str_simps]:
  "split_once c s = Some (a, b) \<longleftrightarrow> s = a @ c # b \<and> c \<notin> set a"
proof
  assume "split_once c s = Some (a, b)"
  moreover from this have "c \<in> set s"
    by (metis dropWhile_neq_Nil_iff list.simps(4) not_None_eq option.distinct(1) split_once_def)
  ultimately show "s = a @ c # b \<and> c \<notin> set a"
    using takeWhile_append_dropWhile_hit [of c s] by (auto simp: split_once_def)
qed (auto simp: split_once_def)

lemma split_once_None [str_simps]: "split_once c s = None \<longleftrightarrow> c \<notin> set s"
proof (cases "c \<in> set s")
  case True
  then show ?thesis using takeWhile_append_dropWhile_hit [of c s] by (auto simp: split_once_def)
next
  case False
  then have d: "dropWhile ((\<noteq>) c) s = []" by (simp only: dropWhile_neq_Nil_iff) simp
  show ?thesis using False by (simp add: split_once_def d)
qed

lemma split_on_nonempty [simp]: "split_on c s \<noteq> []"
proof -
  have "split_from c w s \<noteq> []" for w by (induction s arbitrary: w) auto
  then show ?thesis by (simp add: split_on_def)
qed

lemma hd_split_from: "hd (split_from c w s) = rev w @ takeWhile ((\<noteq>) c) s"
  by (induction s arbitrary: w) auto

lemma hd_split_on [str_simps]: "hd (split_on c s) = takeWhile ((\<noteq>) c) s"
  by (simp add: split_on_def hd_split_from)

lemma trim_start_char_hd: "trim_start_char c s = x # r \<Longrightarrow> x \<noteq> c"
  by (metis (mono_tags) hd_dropWhile list.sel(1) list.distinct(1) trim_start_char_def)

lemma trim_start_str_no_prefix: "p \<noteq> [] \<Longrightarrow> \<not> prefix p (trim_start_str p s)"
proof (induction p s rule: trim_start_str.induct)
  case (1 p s)
  then show ?case by (subst trim_start_str.simps) (auto)
qed

lemma trim_start_str_id: "\<not> prefix p s \<Longrightarrow> trim_start_str p s = s"
  by (subst trim_start_str.simps) auto

subsection \<open>Facts: trimming\<close>

lemma suffix_trim_start: "suffix (trim_start s) s"
proof (induction s rule: trim_start.induct)
  case (1 s)
  show ?case
  proof (cases "0 < ws_front s")
    case True
    then have "trim_start s = trim_start (drop (ws_front s) s)"
      by (subst trim_start.simps) simp
    then show ?thesis using 1 [OF True] suffix_drop [of "ws_front s" s]
      by (metis suffix_order.trans)
  qed (subst trim_start.simps, simp)
qed

lemma suffix_trim_back: "suffix (trim_back s) s"
proof (induction s rule: trim_back.induct)
  case (1 s)
  show ?case
  proof (cases "0 < ws_back s")
    case True
    then have "trim_back s = trim_back (drop (ws_back s) s)"
      by (subst trim_back.simps) simp
    then show ?thesis using 1 [OF True] suffix_drop [of "ws_back s" s]
      by (metis suffix_order.trans)
  qed (subst trim_back.simps, simp)
qed

lemma prefix_trim_end: "prefix (trim_end s) s"
  using suffix_trim_back [of "rev s"] by (simp add: trim_end_def suffix_to_prefix)

lemma ws_front_trim_start: "ws_front (trim_start s) = 0"
proof (induction s rule: trim_start.induct)
  case (1 s)
  then show ?case by (subst trim_start.simps) auto
qed

lemma ws_back_trim_back: "ws_back (trim_back s) = 0"
proof (induction s rule: trim_back.induct)
  case (1 s)
  then show ?case by (subst trim_back.simps) auto
qed

lemma ws_front_prefix: "prefix t s \<Longrightarrow> ws_front s = 0 \<Longrightarrow> ws_front t = 0"
  by (auto simp: ws_front_def prefix_def split: list.splits if_splits)

text \<open>A string is tight when it neither starts nor ends with whitespace.\<close>

definition tight :: "string \<Rightarrow> bool" where
  "tight s = (ws_front s = 0 \<and> ws_back (rev s) = 0)"

lemma trim_tight: "tight (trim s)"
  using ws_front_prefix [OF prefix_trim_end ws_front_trim_start, of s] ws_back_trim_back
  by (simp add: tight_def trim_def trim_end_def)

lemma trim_id: "tight s \<Longrightarrow> trim s = s"
  by (simp add: tight_def trim_def trim_end_def trim_start.simps [of s] trim_back.simps [of "rev s"])

lemma trim_trim [simp]: "trim (trim s) = trim s"
  by (simp add: trim_id trim_tight)

lemma sublist_trim: "sublist (trim s) s"
  unfolding trim_def
  by (rule sublist_order.order_trans [OF prefix_imp_sublist [OF prefix_trim_end]
        suffix_imp_sublist [OF suffix_trim_start]])

lemma set_trim: "set (trim s) \<subseteq> set s"
  by (simp add: set_mono_sublist sublist_trim)

lemma set_trim_end: "set (trim_end s) \<subseteq> set s"
  by (simp add: set_mono_prefix prefix_trim_end)

lemma trim_Nil [simp]: "trim [] = []"
  by (simp add: trim_id tight_def ws_front_def ws_back_def)

lemma ws_tail_empty: "trim (c # s) = [] \<Longrightarrow> \<not> ws1 c \<Longrightarrow> 0x80 \<le> byte c"
proof (rule ccontr)
  assume e: "trim (c # s) = []" and c: "\<not> ws1 c" "\<not> 0x80 \<le> byte c"
  then have "ws_front (c # s) = 0"
    by (auto simp: ws_front_def ws2_def ws3_def split: list.splits)
  then have start: "trim_start (c # s) = c # s" by (subst trim_start.simps) simp
  have "trim_back r \<noteq> []" if "r \<noteq> []" "last r = c" for r
    using that
  proof (induction r rule: trim_back.induct)
    case (1 r)
    have "ws_back r < length r"
      using 1(2,3) c by (auto simp: ws_back_def ws2_def ws3_def split: list.splits if_splits)
    then show ?case using 1 by (subst trim_back.simps) auto
  qed
  from this [of "rev (c # s)"] e start show False by (simp add: trim_def trim_end_def)
qed

text \<open>
  A string that trims to nothing is made of whitespace only, so it ends with whitespace.
\<close>

lemma ws_back_append: "0 < ws_back r \<Longrightarrow> 0 < ws_back (r @ t)"
  by (auto simp: ws_back_def split: list.splits if_splits)

lemma ws_front_append: "0 < ws_front r \<Longrightarrow> 0 < ws_front (r @ t)"
  by (auto simp: ws_front_def split: list.splits if_splits)

lemma ws_front_chunk: "0 < ws_front s \<Longrightarrow> 0 < ws_back (rev (take (ws_front s) s))"
  by (auto simp: ws_front_def ws_back_def split: list.splits if_splits)

lemma ws_back_chunk: "0 < ws_back r \<Longrightarrow> 0 < ws_front (rev (take (ws_back r) r))"
  by (auto simp: ws_front_def ws_back_def split: list.splits if_splits)

lemma trim_start_all: "trim_start s = [] \<Longrightarrow> s \<noteq> [] \<Longrightarrow> 0 < ws_back (rev s)"
proof (induction s rule: trim_start.induct)
  case (1 s)
  have front: "0 < ws_front s" using "1.prems" by (subst (asm) trim_start.simps) (auto split: if_splits)
  have rs: "rev s = rev (drop (ws_front s) s) @ rev (take (ws_front s) s)"
    by (simp flip: rev_append)
  show ?case
  proof (cases "drop (ws_front s) s = []")
    case True
    then show ?thesis using ws_front_chunk [OF front] by simp
  next
    case False
    have "trim_start (drop (ws_front s) s) = []"
      using "1.prems" front by (subst (asm) trim_start.simps) simp
    then have "0 < ws_back (rev (drop (ws_front s) s))" using "1.IH" front False by blast
    then show ?thesis by (subst rs) (rule ws_back_append)
  qed
qed

lemma trim_back_all: "trim_back r = [] \<Longrightarrow> r \<noteq> [] \<Longrightarrow> 0 < ws_front (rev r)"
proof (induction r rule: trim_back.induct)
  case (1 r)
  have bk: "0 < ws_back r" using "1.prems" by (subst (asm) trim_back.simps) (auto split: if_splits)
  have rr: "rev r = rev (drop (ws_back r) r) @ rev (take (ws_back r) r)"
    by (simp flip: rev_append)
  show ?case
  proof (cases "drop (ws_back r) r = []")
    case True
    then show ?thesis using ws_back_chunk [OF bk] by simp
  next
    case False
    have "trim_back (drop (ws_back r) r) = []"
      using "1.prems" bk by (subst (asm) trim_back.simps) simp
    then have "0 < ws_front (rev (drop (ws_back r) r))" using "1.IH" bk False by blast
    then show ?thesis by (subst rr) (rule ws_front_append)
  qed
qed

lemma trim_empty_ws_back: "trim s = [] \<Longrightarrow> s \<noteq> [] \<Longrightarrow> 0 < ws_back (rev s)"
proof -
  assume t: "trim s = []" and s: "s \<noteq> []"
  have "trim_start s = []"
    using t trim_back_all [of "rev (trim_start s)"] ws_front_trim_start [of s]
    by (auto simp: trim_def trim_end_def)
  then show ?thesis using s by (rule trim_start_all)
qed

subsection \<open>Facts: words and lines\<close>

text \<open>Plain characters: ASCII and not whitespace.\<close>

definition plain :: "char \<Rightarrow> bool" where
  "plain c = (byte c < 0x80 \<and> \<not> ws1 c)"

lemma ws_front_plain [simp]: "plain c \<Longrightarrow> ws_front (c # s) = 0"
  by (auto simp: plain_def ws_front_def ws2_def ws3_def split: list.splits)

lemma ws_front_ws1 [simp]: "ws1 c \<Longrightarrow> ws_front (c # s) = 1"
  by (simp add: ws_front_def)

lemma words_from_plain: "list_all plain v \<Longrightarrow> words_from w (v @ s) = words_from (rev v @ w) s"
proof (induction v arbitrary: w)
  case (Cons c v)
  then show ?case by (simp add: words_from.simps [of w "c # v @ s"])
qed simp

lemma words_from_ws1: "ws1 c \<Longrightarrow>
    words_from w (c # s) = (if w = [] then [] else [rev w]) @ words_from [] s"
  by (simp add: words_from.simps [of w "c # s"])

lemma split_whitespace_word [str_simps]:
  "list_all plain v \<Longrightarrow> v \<noteq> [] \<Longrightarrow> ws1 c \<Longrightarrow> split_whitespace (v @ c # s) = v # split_whitespace s"
  by (simp add: split_whitespace_def words_from_plain words_from_ws1)

lemma split_whitespace_last [str_simps]:
  "list_all plain v \<Longrightarrow> v \<noteq> [] \<Longrightarrow> split_whitespace v = [v]"
  using words_from_plain [of v "[]" "[]"]
  by (simp add: split_whitespace_def words_from.simps [of "rev v" "[]"])

lemma split_whitespace_Nil [simp]: "split_whitespace [] = []"
  by (simp add: split_whitespace_def words_from.simps [of "[]" "[]"])

lemma words_from_nonempty: "v \<in> set (words_from w s) \<Longrightarrow> v \<noteq> []"
proof (induction w s rule: words_from.induct)
  case (1 w s)
  from "1.prems" show ?case
    by (subst (asm) words_from.simps) (use 1 in \<open>auto split: if_splits\<close>)
qed

lemma split_whitespace_nonempty: "v \<in> set (split_whitespace s) \<Longrightarrow> v \<noteq> []"
  by (simp add: split_whitespace_def words_from_nonempty)

lemma lines_from_no_LF: "LF \<notin> set v \<Longrightarrow> lines_from w (v @ s) = lines_from (rev v @ w) s"
  by (induction v arbitrary: w) auto

lemma lines_crlf [str_simps]: "LF \<notin> set v \<Longrightarrow> lines (v @ crlf @ s) = v # lines s"
  using lines_from_no_LF [of "v @ [CR]" "[]" "LF # s"] by (simp add: lines_def strip_cr_def)

lemma set_strip_cr: "set (strip_cr l) \<subseteq> set l"
  by (auto simp: strip_cr_def dest: in_set_butlastD)

lemma lines_from_no_newline: "l \<in> set (lines_from w s) \<Longrightarrow> LF \<notin> set w \<Longrightarrow> LF \<notin> set l"
  using set_strip_cr by (induction s arbitrary: w) (fastforce split: if_splits)+

lemma lines_no_newline: "l \<in> set (lines s) \<Longrightarrow> LF \<notin> set l"
  unfolding lines_def by (rule lines_from_no_newline) auto

text \<open>Whitespace-only strings hold no plain character.\<close>

lemma ws_front_chunk_no_plain: "c \<in> set (take (ws_front s) s) \<Longrightarrow> 0 < ws_front s \<Longrightarrow> \<not> plain c"
  by (auto simp: ws_front_def plain_def ws2_def ws3_def split: list.splits if_splits)

lemma trim_start_empty_no_plain: "trim_start s = [] \<Longrightarrow> c \<in> set s \<Longrightarrow> \<not> plain c"
proof (induction s rule: trim_start.induct)
  case (1 s)
  have f: "0 < ws_front s"
    using "1.prems" by (subst (asm) trim_start.simps) (auto split: if_splits)
  then have "trim_start (drop (ws_front s) s) = []"
    using "1.prems"(1) by (subst (asm) trim_start.simps) simp
  moreover have "c \<in> set (take (ws_front s) s) \<or> c \<in> set (drop (ws_front s) s)"
    using "1.prems"(2) by (metis append_take_drop_id Un_iff set_append)
  ultimately show ?case using "1.IH" [OF f] ws_front_chunk_no_plain f by blast
qed

lemma trim_start_of_empty: "trim s = [] \<Longrightarrow> trim_start s = []"
  using trim_back_all [of "rev (trim_start s)"] ws_front_trim_start [of s]
  by (auto simp: trim_def trim_end_def)

lemma trim_nonempty: "plain c \<Longrightarrow> c \<in> set s \<Longrightarrow> trim s \<noteq> []"
  using trim_start_of_empty trim_start_empty_no_plain by blast

lemma trim_end_snoc_ws1 [simp]: "ws1 c \<Longrightarrow> trim_end (s @ [c]) = trim_end s"
  by (simp add: trim_end_def trim_back.simps [of "c # rev s"] ws_back_def)

lemma trim_end_crlf [simp]: "trim_end (s @ crlf) = trim_end s"
  using trim_end_snoc_ws1 [of LF "s @ [CR]"] trim_end_snoc_ws1 [of CR s] by (simp add: ws1_def)

lemma trim_cons_ws1: "ws1 c \<Longrightarrow> trim (c # s) = trim s"
  by (simp add: trim_def trim_start.simps [of "c # s"])

lemma ws_back_append_ascii:
  "ws_back r = 0 \<Longrightarrow> r \<noteq> [] \<Longrightarrow> byte x < 0x80 \<Longrightarrow> ws_back (r @ x # t) = 0"
proof -
  assume r: "ws_back r = 0" "r \<noteq> []" and x: "byte x < 0x80"
  have no: "\<not> ws2 x c" "\<not> ws3 x b c" "\<not> ws3 b x c" for b c using x by (auto simp: ws2_def ws3_def)
  show ?thesis
    using r by (auto simp: ws_back_def no split: list.splits if_splits)
qed

lemma trim_end_id: "ws_back (rev s) = 0 \<Longrightarrow> trim_end s = s"
  by (simp add: trim_end_def trim_back.simps [of "rev s"])

lemma ws_back_plain: "plain c \<Longrightarrow> ws_back (c # r) = 0"
  by (auto simp: plain_def ws_back_def ws2_def ws3_def split: list.splits)

subsection \<open>Facts: numbers\<close>

lemma byte_char_of [simp]: "byte (char_of n) = n mod 256"
  by simp

lemma digit_val_digit: "d < 10 \<Longrightarrow> digit_val 10 (char_of (48 + d)) = Some d"
  by (simp add: digit_val_def)

lemma digits_from_snoc:
  "digits_from r acc (s @ [c]) = (case digits_from r acc s of None \<Rightarrow> None
     | Some v \<Rightarrow> map_option (\<lambda>d. v * r + d) (digit_val r c))"
  by (induction s arbitrary: acc) (auto split: option.splits)

lemma digits_from_show_nat: "digits_from 10 0 (show_nat n) = Some n"
proof (induction n rule: show_nat.induct)
  case (1 n)
  show ?case
  proof (cases "n < 10")
    case True
    then show ?thesis by (simp add: show_nat.simps [of n] digit_val_digit)
  next
    case False
    have "show_nat n = show_nat (n div 10) @ [char_of (48 + n mod 10)]"
      using False by (simp add: show_nat.simps [of n])
    then show ?thesis using 1 [OF False] by (simp add: digits_from_snoc digit_val_digit)
  qed
qed

lemma show_nat_digits: "c \<in> set (show_nat n) \<Longrightarrow> 48 \<le> byte c \<and> byte c \<le> 57"
proof (induction n rule: show_nat.induct)
  case (1 n)
  from "1.prems" show ?case
    by (subst (asm) show_nat.simps) (use 1 in \<open>auto split: if_splits\<close>)
qed

lemma show_nat_nonempty [simp]: "show_nat n \<noteq> []"
  by (subst show_nat.simps) simp

lemma show_nat_plain: "list_all plain (show_nat n)"
  by (auto simp: list_all_iff plain_def ws1_def dest: show_nat_digits)

lemma show_nat_not_in: "\<not> (48 \<le> byte c \<and> byte c \<le> 57) \<Longrightarrow> c \<notin> set (show_nat n)"
  by (blast dest: show_nat_digits)

lemma parse_show_word [simp]: "parse_uint (show_word w) = Some (w :: 'a::len word)"
proof -
  obtain c r where cr: "show_word w = c # r" by (cases "show_word w") auto
  then have "c \<noteq> CHR ''+''" using show_nat_not_in [of "CHR ''+''" "unat w"] by auto
  then show ?thesis
    using digits_from_show_nat [of "unat w"] cr unsigned_less [of w]
    by (simp add: from_str_radix_def)
qed

end
