(* ===== verification/Rust_Io.thy ===== *)
theory Rust_Io
  imports Rust_Str
begin

section \<open>I/O results, byte streams and paths\<close>

text \<open>
  What the code uses of \<open>std::io\<close>, Tokio's stream traits and \<open>std::path\<close>: errors as
  values, an input stream read line by line, an output stream that may break at any byte, the
  component view of a path, and the file system as the results of its calls.
\<close>

subsection \<open>Errors and polls\<close>

datatype error_kind = NotConnected | InvalidData | InvalidInput | TimedOut | NotFound | OtherKind string

record io_error =
  err_kind :: error_kind
  err_msg :: string

type_synonym 'a io_result = "io_error + 'a"

text \<open>An awaited operation either completes with a result or stays pending for ever.\<close>

datatype 'a poll = Ready "'a io_result" | Pending

definition io_err :: "error_kind \<Rightarrow> string \<Rightarrow> io_error" where
  "io_err k m = \<lparr>err_kind = k, err_msg = m\<rparr>"

lemma io_err_kind [simp]: "err_kind (io_err k m) = k" "err_msg (io_err k m) = m"
  by (simp_all add: io_err_def)

subsection \<open>Input streams\<close>

text \<open>
  The bytes the peer sends, and what follows them: the end of the stream, a read error, or
  silence (the peer keeps the connection open and sends nothing more).
\<close>

datatype stream_end = Eof | ReadErr io_error | Silent

record instream =
  avail :: bytes
  ending :: stream_end

definition invalid_utf8 :: io_error where
  "invalid_utf8 = io_err InvalidData ''stream did not contain valid UTF-8''"

definition cut_line :: "bytes \<Rightarrow> (bytes \<times> bytes) option" where
  "cut_line s = (case dropWhile ((\<noteq>) LF) s of [] \<Rightarrow> None
     | _ # r \<Rightarrow> Some (takeWhile ((\<noteq>) LF) s @ [LF], r))"

text \<open>
  \<open>AsyncBufReadExt::read_line\<close>: the bytes up to and including the next LF, or the rest at
  the end of the stream (the empty string when nothing is left).
\<close>

definition read_line :: "instream \<Rightarrow> (string \<times> instream) poll" where
  "read_line s = (case cut_line (avail s) of
     Some (l, r) \<Rightarrow> if utf8_valid l then Ready (Inr (l, s\<lparr>avail := r\<rparr>)) else Ready (Inl invalid_utf8)
   | None \<Rightarrow> (case ending s of
       Eof \<Rightarrow> if utf8_valid (avail s) then Ready (Inr (avail s, s\<lparr>avail := []\<rparr>))
              else Ready (Inl invalid_utf8)
     | ReadErr e \<Rightarrow> Ready (Inl e)
     | Silent \<Rightarrow> Pending))"

lemma cut_line_None: "LF \<notin> set s \<Longrightarrow> cut_line s = None"
  unfolding cut_line_def by (subst dropWhile_neq_Nil_iff [THEN iffD2]) simp_all

lemma cut_line_Some:
  assumes "cut_line s = Some (l, r)"
  shows "\<exists>k. l = k @ [LF] \<and> s = k @ LF # r \<and> LF \<notin> set k"
proof (cases "LF \<in> set s")
  case True
  from takeWhile_append_dropWhile_hit [OF this] assms show ?thesis by (auto simp: cut_line_def)
next
  case False
  then show ?thesis using assms by (simp add: cut_line_None)
qed

lemma cut_line_hit: "LF \<notin> set l \<Longrightarrow> cut_line (l @ LF # r) = Some (l @ [LF], r)"
  by (simp add: cut_line_def)

lemma read_line_progress:
  "read_line s = Ready (Inr (l, s')) \<Longrightarrow> l \<noteq> [] \<Longrightarrow> length (avail s') < length (avail s)"
  by (auto simp: read_line_def dest!: cut_line_Some split: option.splits if_splits stream_end.splits)

lemma read_line_ending: "read_line s = Ready (Inr (l, s')) \<Longrightarrow> ending s' = ending s"
  by (auto simp: read_line_def split: option.splits if_splits stream_end.splits)

lemma read_line_pending: "read_line s = Pending \<longleftrightarrow> cut_line (avail s) = None \<and> ending s = Silent"
  by (auto simp: read_line_def split: option.splits if_splits stream_end.splits)

lemma read_line_no_LF: "read_line s = Ready (Inr (l, s')) \<Longrightarrow> LF \<notin> set (trim_end l)"
proof -
  assume rd: "read_line s = Ready (Inr (l, s'))"
  consider "LF \<notin> set l" | k where "l = k @ [LF]" "LF \<notin> set k"
  proof (cases "cut_line (avail s)")
    case None
    then have "LF \<notin> set (avail s)"
      using cut_line_hit takeWhile_append_dropWhile_hit [of LF "avail s"]
      by (metis option.distinct(1) takeWhile_neq_notin)
    then show thesis using that(1) rd None
      by (auto simp: read_line_def split: stream_end.splits if_splits)
  next
    case (Some lr)
    then show thesis using that(2) rd cut_line_Some [of "avail s" l "snd lr"]
      by (cases lr) (auto simp: read_line_def split: if_splits)
  qed
  then show ?thesis
  proof cases
    case 1
    then show ?thesis using set_trim_end [of l] by blast
  next
    case 2
    then show ?thesis using set_trim_end [of k] by (auto simp: ws1_def)
  qed
qed

lemma read_line_valid:
  assumes "ending s = Eof" and "utf8_valid (avail s)"
  shows "\<exists>l s'. read_line s = Ready (Inr (l, s')) \<and> ending s' = Eof \<and> utf8_valid (avail s')"
proof (cases "cut_line (avail s)")
  case None
  then show ?thesis using assms by (simp add: read_line_def)
next
  case (Some lr)
  obtain l r where lr: "lr = (l, r)" by (cases lr)
  obtain k where k: "l = k @ [LF]" "avail s = k @ LF # r"
    using Some cut_line_Some [of "avail s" l r] by (auto simp: lr)
  have "utf8_valid k" "utf8_valid r" using utf8_valid_split [of LF k r] assms(2) k by auto
  then show ?thesis using assms(1) Some by (simp add: read_line_def lr k utf8_valid_append)
qed

subsection \<open>Output streams\<close>

text \<open>
  What has reached the peer, how many more bytes the connection takes (\<open>None\<close>: all of them),
  whether a write beyond that breaks with an error or waits for ever (the peer keeps the
  connection open and reads nothing more), and what a flush does.
\<close>

record sink =
  written :: bytes
  room :: "nat option"
  stalls :: bool
  write_err :: io_error
  flush_result :: "unit poll"

definition write_all :: "bytes \<Rightarrow> sink \<Rightarrow> unit poll \<times> sink" where
  "write_all bs s = (case room s of
     None \<Rightarrow> (Ready (Inr ()), s\<lparr>written := written s @ bs\<rparr>)
   | Some n \<Rightarrow>
       if length bs \<le> n then (Ready (Inr ()), s\<lparr>written := written s @ bs, room := Some (n - length bs)\<rparr>)
       else (if stalls s then Pending else Ready (Inl (write_err s)),
             s\<lparr>written := written s @ take n bs, room := Some 0\<rparr>))"

definition flush :: "sink \<Rightarrow> unit poll \<times> sink" where
  "flush s = (flush_result s, s)"

lemma write_all_unbroken [simp]:
  "room s = None \<Longrightarrow> write_all bs s = (Ready (Inr ()), s\<lparr>written := written s @ bs\<rparr>)"
  by (simp add: write_all_def)

lemma write_all_append: "prefix (written s) (written (snd (write_all bs s)))"
  by (auto simp: write_all_def split: option.splits)

lemma write_all_frame:
  "write_err (snd (write_all bs s)) = write_err s" "flush_result (snd (write_all bs s)) = flush_result s"
  "stalls (snd (write_all bs s)) = stalls s"
  by (auto simp: write_all_def split: option.splits)

lemma snd_flush [simp]: "snd (flush s) = s"
  by (simp add: flush_def)

subsection \<open>Paths\<close>

datatype component = RootDir | CurDir | ParentDir | Normal string

definition comp_of :: "string \<Rightarrow> component list" where
  "comp_of s = (if s = [] \<or> s = ''.'' then [] else if s = ''..'' then [ParentDir] else [Normal s])"

definition rel_components :: "string \<Rightarrow> component list" where
  "rel_components p = concat (map comp_of (split_on (CHR ''/'') p))"

definition is_absolute :: "string \<Rightarrow> bool" where
  "is_absolute p = prefix ''/'' p"

text \<open>\<open>Path::components\<close>: empty parts and dots vanish, except a leading dot.\<close>

definition components :: "string \<Rightarrow> component list" where
  "components p =
     (if is_absolute p then [RootDir]
      else if hd (split_on (CHR ''/'') p) = ''.'' then [CurDir] else []) @ rel_components p"

definition path_starts_with :: "string \<Rightarrow> string \<Rightarrow> bool" where
  "path_starts_with p base = prefix (components base) (components p)"

text \<open>\<open>Path::join\<close>: an absolute argument replaces the base.\<close>

definition path_join :: "string \<Rightarrow> string \<Rightarrow> string" where
  "path_join base p =
     (if is_absolute p then p
      else if base \<noteq> [] \<and> last base \<noteq> CHR ''/'' then base @ ''/'' @ p else base @ p)"

definition file_name :: "string \<Rightarrow> string option" where
  "file_name p = (if components p = [] then None else
     (case last (components p) of Normal n \<Rightarrow> Some n | _ \<Rightarrow> None))"

definition extension :: "string \<Rightarrow> string option" where
  "extension p = (case file_name p of None \<Rightarrow> None | Some n \<Rightarrow>
     (case split_once (CHR ''.'') (rev n) of
        None \<Rightarrow> None
      | Some (after, before) \<Rightarrow> if before = [] then None else Some (rev after)))"

text \<open>\<open>Path::parent\<close>, as the components of the parent.\<close>

definition parent :: "string \<Rightarrow> component list option" where
  "parent p = (if components p = [] \<or> last (components p) = RootDir then None
     else Some (butlast (components p)))"

lemma split_from_sep: "split_from c w (a @ c # b) = split_from c w a @ split_on c b"
  by (induction a arbitrary: w) (auto simp: split_on_def)

lemma split_on_sep: "split_on c (a @ c # b) = split_on c a @ split_on c b"
  by (metis split_from_sep split_on_def)

lemma rel_components_sep:
  "rel_components (a @ CHR ''/'' # b) = rel_components a @ rel_components b"
  by (simp add: rel_components_def split_on_sep)

lemma rel_components_Nil [simp]: "rel_components [] = []"
  by (simp add: rel_components_def split_on_def comp_of_def)

lemma components_sep:
  "a \<noteq> [] \<Longrightarrow> components (a @ CHR ''/'' # b) = components a @ rel_components b"
proof -
  assume "a \<noteq> []"
  then have "is_absolute (a @ CHR ''/'' # b) = is_absolute a"
    by (cases a) (auto simp: is_absolute_def)
  moreover have "hd (split_on (CHR ''/'') (a @ CHR ''/'' # b)) = hd (split_on (CHR ''/'') a)"
    by (simp add: split_on_sep)
  ultimately show ?thesis by (simp only: components_def rel_components_sep append_assoc)
qed

lemma components_join:
  assumes "\<not> is_absolute p" and "base \<noteq> []"
  shows "components (path_join base p) = components base @ rel_components p"
proof (cases "last base = CHR ''/''")
  case True
  then obtain b where b: "base = b @ [CHR ''/'']" using assms(2) by (metis append_butlast_last_id)
  show ?thesis
  proof (cases "b = []")
    case True
    then show ?thesis using assms(1) rel_components_sep [of "[]"]
      by (simp add: b path_join_def components_def is_absolute_def)
  next
    case False
    then show ?thesis
      using assms(1) components_sep [OF False, of p] components_sep [OF False, of "[]"]
      by (simp add: b path_join_def)
  qed
next
  case False
  then show ?thesis using assms components_sep [OF assms(2), of p] by (simp add: path_join_def)
qed

lemma path_join_starts_with: "\<not> is_absolute p \<Longrightarrow> path_starts_with (path_join base p) base"
  by (cases "base = []")
    (simp_all add: path_starts_with_def components_join, simp add: components_def split_on_def is_absolute_def)

text \<open>A parent step in a path shows as a double dot in its text.\<close>

lemma split_from_sublist: "x \<in> set (split_from c w s) \<Longrightarrow> sublist x (rev w @ s)"
proof (induction s arbitrary: w)
  case (Cons a s)
  show ?case
  proof (cases "a = c \<and> x \<in> set (split_from c [] s)")
    case True
    then have "sublist x s" using Cons.IH [of "[]"] by simp
    then obtain p q where "s = p @ x @ q" by (auto simp: sublist_def)
    then have "rev w @ a # s = (rev w @ a # p) @ x @ q" by simp
    then show ?thesis unfolding sublist_def by blast
  next
    case False
    then show ?thesis using Cons.prems Cons.IH [of "a # w"] by (auto split: if_splits)
  qed
qed simp

lemma parent_dir_double_dot: "ParentDir \<in> set (components p) \<Longrightarrow> sublist ''..'' p"
  using split_from_sublist [of "''..''" "CHR ''/''" "[]" p]
  by (auto simp: components_def rel_components_def comp_of_def split_on_def split: if_splits)

lemma trim_start_slash_relative: "\<not> is_absolute (trim_start_char (CHR ''/'') p)"
proof
  assume "is_absolute (trim_start_char (CHR ''/'') p)"
  then obtain r where "trim_start_char (CHR ''/'') p = CHR ''/'' # r"
    by (auto simp: is_absolute_def prefix_def)
  then show False using trim_start_char_hd by blast
qed

subsection \<open>The file system as the code sees it\<close>

text \<open>
  The three calls the server makes, by their results: \<open>metadata(p)\<close> reduced to
  \<open>is_dir\<close>, \<open>canonicalize\<close> and \<open>read\<close>; \<open>None\<close> is an error. Files may change between two
  calls, so a component that makes several calls takes a file system per call.
\<close>

record filesystem =
  fs_is_dir :: "string \<Rightarrow> bool option"
  fs_canonicalize :: "string \<Rightarrow> string option"
  fs_read :: "string \<Rightarrow> bytes option"

end
