(* ===== verification/Rust_Map.thy ===== *)
theory Rust_Map
  imports Rust_Io "HOL-Library.AList"
begin

section \<open>\<open>HashMap<String, String>\<close>\<close>

text \<open>
  A hash map is an association list with pairwise different keys. The order in which
  iteration visits the entries is not determined by the code (the standard library seeds its
  hasher at random): it is the parameter \<open>hash_order\<close>, of which only what the documentation
  promises is assumed, that every entry is visited exactly once. The Unicode tables of
  \<open>to_lowercase\<close> are the second parameter taken from the standard library.
\<close>

type_synonym hashmap = "(string \<times> string) list"

record std_params =
  uni_lower :: "string \<Rightarrow> string"
  hash_order :: "hashmap \<Rightarrow> hashmap"

definition hm_insert :: "string \<Rightarrow> string \<Rightarrow> hashmap \<Rightarrow> hashmap" where
  "hm_insert k v m = AList.update k v m"

definition hm_get :: "hashmap \<Rightarrow> string \<Rightarrow> string option" where
  "hm_get m k = map_of m k"

definition hm_ok :: "hashmap \<Rightarrow> bool" where
  "hm_ok m = distinct (map fst m)"

text \<open>
  What is assumed of the two parameters: iteration is a permutation of the entries, and
  lowercasing (which maps letters to letters) introduces no line feed.
\<close>

definition std_ok :: "std_params \<Rightarrow> bool" where
  "std_ok std = ((\<forall>m. hm_ok m \<longrightarrow> mset (hash_order std m) = mset m) \<and>
     (\<forall>s. LF \<notin> set s \<longrightarrow> LF \<notin> set (uni_lower std s)))"

text \<open>The contract of the map, and what the clients build with it: a map from a list of insertions.\<close>

locale hash_map =
  fixes empty :: 'm and insert :: "string \<Rightarrow> string \<Rightarrow> 'm \<Rightarrow> 'm"
    and get :: "'m \<Rightarrow> string \<Rightarrow> string option" and entries :: "'m \<Rightarrow> (string \<times> string) set"
    and invar :: "'m \<Rightarrow> bool"
  assumes get_empty: "get empty k = None"
    and get_insert: "invar m \<Longrightarrow> get (insert k v m) k' = (if k' = k then Some v else get m k')"
    and entries_get: "invar m \<Longrightarrow> (k, v) \<in> entries m \<longleftrightarrow> get m k = Some v"
    and invar_empty: "invar empty"
    and invar_insert: "invar m \<Longrightarrow> invar (insert k v m)"
begin

lemma invar_fold: "invar m \<Longrightarrow> invar (fold (\<lambda>(k, v). insert k v) kvs m)"
  by (induction kvs arbitrary: m) (auto simp: invar_insert)

text \<open>The last binding of a key wins.\<close>

lemma get_fold:
  "invar m \<Longrightarrow> get (fold (\<lambda>(k, v). insert k v) kvs m) k = (case map_of (rev kvs) k of
     None \<Rightarrow> get m k | Some v \<Rightarrow> Some v)"
proof (induction kvs arbitrary: m)
  case (Cons kv kvs)
  obtain k' v' where kv: "kv = (k', v')" by (cases kv)
  show ?case
    using Cons.IH [OF invar_insert [OF Cons.prems, of k' v']] get_insert [OF Cons.prems, of k' v' k]
    by (auto simp: kv map_add_def split: option.splits)
qed simp

lemma get_fold_empty: "get (fold (\<lambda>(k, v). insert k v) kvs empty) k = map_of (rev kvs) k"
  by (simp add: get_fold [OF invar_empty] get_empty split: option.splits)

lemma entries_fold_empty:
  "(k, v) \<in> entries (fold (\<lambda>(k, v). insert k v) kvs empty) \<Longrightarrow> (k, v) \<in> set kvs"
  using entries_get [OF invar_fold [OF invar_empty]] get_fold_empty
  by (auto dest!: map_of_SomeD)

end

interpretation hm: hash_map "[]" hm_insert hm_get set hm_ok
proof unfold_locales
  fix m k v k' assume "hm_ok m"
  show "hm_get (hm_insert k v m) k' = (if k' = k then Some v else hm_get m k')"
    by (simp add: hm_get_def hm_insert_def update_conv')
next
  fix m k v assume "hm_ok m"
  then show "((k, v) \<in> set m) = (hm_get m k = Some v)"
    by (simp add: hm_ok_def hm_get_def map_of_eq_Some_iff)
next
  fix m k v assume "hm_ok m"
  then show "hm_ok (hm_insert k v m)" by (simp add: hm_ok_def hm_insert_def distinct_update)
qed (simp_all add: hm_get_def hm_ok_def)

lemma hash_order_set: "std_ok std \<Longrightarrow> hm_ok m \<Longrightarrow> set (hash_order std m) = set m"
  by (metis set_mset_mset std_ok_def)

lemma hash_order_ok: "std_ok std \<Longrightarrow> hm_ok m \<Longrightarrow> hm_ok (hash_order std m)"
  unfolding hm_ok_def std_ok_def by (metis mset_eq_imp_distinct_iff mset_map)

lemma hm_insert_entries: "set (hm_insert k v m) \<subseteq> insert (k, v) (set m)"
proof -
  have "set (AList.update k v m) \<subseteq> insert (k, v) (set m)"
    by (induction m) (auto split: if_splits)
  then show ?thesis by (simp add: hm_insert_def)
qed

text \<open>Two concrete orders, for evaluation: the stored one and its reverse.\<close>

definition std_id :: std_params where
  "std_id = \<lparr>uni_lower = (\<lambda>s. s), hash_order = (\<lambda>m. m)\<rparr>"

definition std_rev :: std_params where
  "std_rev = \<lparr>uni_lower = (\<lambda>s. s), hash_order = rev\<rparr>"

lemma std_id_ok: "std_ok std_id" and std_rev_ok: "std_ok std_rev"
  by (simp_all add: std_ok_def std_id_def std_rev_def)

end
