(* ===== verification/Config.thy ===== *)
theory Config
  imports Rust_Map
begin

section \<open>Configuration (src/config/mod.rs)\<close>

text \<open>
  The \<open>Config\<close> record, its defaults, the \<open>key = value\<close> parser and \<open>Config::load\<close>. The file
  is what the two file-system calls of \<open>load\<close> say about it; \<open>load\<close> returns the configuration
  and the warnings it prints.
\<close>

record config =
  host :: string
  port :: u16
  document_root :: string
  server_name :: string
  index_file :: string
  worker_threads :: usize
  access_log :: string
  error_log :: string
  tls_enabled :: bool
  tls_port :: u16
  tls_cert :: string
  tls_key :: string
  proxy_routes :: "(string \<times> string list) list"
  wasm_routes :: "(string \<times> string) list"
  health_check_interval_secs :: u64
  health_check_timeout_secs :: u64

definition default_config :: config where
  "default_config = \<lparr>
     host = ''0.0.0.0'',
     port = 9090,
     document_root = ''./www'',
     server_name = ''NWarp'',
     index_file = ''index.html'',
     worker_threads = 4,
     access_log = ''./logs/access.log'',
     error_log = ''./logs/error.log'',
     tls_enabled = False,
     tls_port = 9443,
     tls_cert = ''./certs/dev-cert.pem'',
     tls_key = ''./certs/dev-key.pem'',
     proxy_routes = [],
     wasm_routes = [],
     health_check_interval_secs = 5,
     health_check_timeout_secs = 2\<rparr>"

subsection \<open>\<open>parse_kv\<close>\<close>

text \<open>What one line contributes: nothing if it is blank, a comment or has no equals sign.\<close>

definition kv_of_line :: "string \<Rightarrow> (string \<times> string) option" where
  "kv_of_line raw =
     (let line = trim raw in
      if line = [] \<or> prefix ''#'' line then None
      else map_option (\<lambda>(k, v). (trim k, trim_char (CHR 0x22) (trim v))) (split_once (CHR ''='') line))"

definition parse_kv :: "string \<Rightarrow> hashmap" where
  "parse_kv contents = fold (\<lambda>raw m. case kv_of_line raw of None \<Rightarrow> m | Some (k, v) \<Rightarrow> hm_insert k v m)
     (lines contents) []"

subsection \<open>\<open>Config::load\<close>\<close>

definition with_key :: "hashmap \<Rightarrow> string \<Rightarrow> (string \<Rightarrow> config \<Rightarrow> config) \<Rightarrow> config \<Rightarrow> config" where
  "with_key m k f cfg = (case hm_get m k of None \<Rightarrow> cfg | Some v \<Rightarrow> f v cfg)"

definition with_num :: "hashmap \<Rightarrow> string \<Rightarrow> ('a::len word \<Rightarrow> config \<Rightarrow> config) \<Rightarrow> config \<Rightarrow> config" where
  "with_num m k f cfg =
     with_key m k (\<lambda>v c. case parse_uint v of None \<Rightarrow> c | Some n \<Rightarrow> f n c) cfg"

definition load_settings :: "hashmap \<Rightarrow> config \<Rightarrow> config" where
  "load_settings m cfg =
     (let cfg = with_key m ''host'' (\<lambda>v c. c\<lparr>host := v\<rparr>) cfg;
          cfg = with_num m ''port'' (\<lambda>p c. c\<lparr>port := p\<rparr>) cfg;
          cfg = with_key m ''document_root'' (\<lambda>v c. c\<lparr>document_root := v\<rparr>) cfg;
          cfg = with_key m ''server_name'' (\<lambda>v c. c\<lparr>server_name := v\<rparr>) cfg;
          cfg = with_key m ''index'' (\<lambda>v c. c\<lparr>index_file := v\<rparr>) cfg;
          cfg = with_num m ''worker_threads'' (\<lambda>n c. c\<lparr>worker_threads := max n 1\<rparr>) cfg;
          cfg = with_key m ''access_log'' (\<lambda>v c. c\<lparr>access_log := v\<rparr>) cfg;
          cfg = with_key m ''error_log'' (\<lambda>v c. c\<lparr>error_log := v\<rparr>) cfg;
          cfg = with_key m ''tls_enabled''
            (\<lambda>v c. c\<lparr>tls_enabled := (eq_ignore_ascii_case v ''true'' \<or> v = ''1'')\<rparr>) cfg;
          cfg = with_num m ''tls_port'' (\<lambda>p c. c\<lparr>tls_port := p\<rparr>) cfg;
          cfg = with_key m ''tls_cert'' (\<lambda>v c. c\<lparr>tls_cert := v\<rparr>) cfg;
          cfg = with_key m ''tls_key'' (\<lambda>v c. c\<lparr>tls_key := v\<rparr>) cfg;
          cfg = with_num m ''health_check_interval''
            (\<lambda>n c. c\<lparr>health_check_interval_secs := max n 1\<rparr>) cfg;
          cfg = with_num m ''health_check_timeout''
            (\<lambda>n c. c\<lparr>health_check_timeout_secs := max n 1\<rparr>) cfg
      in cfg)"

definition proxy_route_of :: "string \<times> string \<Rightarrow> (string \<times> string list) option" where
  "proxy_route_of = (\<lambda>(k, v).
     case strip_prefix ''proxy_route '' k of
       None \<Rightarrow> None
     | Some pre \<Rightarrow>
         (let upstreams = filter (\<lambda>s. s \<noteq> []) (map trim (split_on (CHR '','') v))
          in if upstreams \<noteq> [] then Some (trim pre, upstreams) else None))"

definition wasm_route_of :: "string \<times> string \<Rightarrow> (string \<times> string) option" where
  "wasm_route_of = (\<lambda>(k, v). map_option (\<lambda>pre. (trim pre, trim v)) (strip_prefix ''wasm_route '' k))"

definition load_routes :: "std_params \<Rightarrow> hashmap \<Rightarrow> config \<Rightarrow> config" where
  "load_routes std m cfg = cfg\<lparr>
     proxy_routes := proxy_routes cfg @ List.map_filter proxy_route_of (hash_order std m),
     wasm_routes := wasm_routes cfg @ List.map_filter wasm_route_of (hash_order std m)\<rparr>"

text \<open>\<open>Path::exists\<close> and \<open>fs::read_to_string\<close>, by their results.\<close>

datatype config_file = Missing | Unreadable io_error | Contents bytes

definition read_to_string :: "config_file \<Rightarrow> string io_result" where
  "read_to_string f = (case f of
     Missing \<Rightarrow> Inl (io_err NotFound ''No such file or directory (os error 2)'')
   | Unreadable e \<Rightarrow> Inl e
   | Contents bs \<Rightarrow> if utf8_valid bs then Inr bs else Inl invalid_utf8)"

definition quoted :: "string \<Rightarrow> string" where
  "quoted s = CHR 0x27 # s @ [CHR 0x27]"

definition load :: "std_params \<Rightarrow> string \<Rightarrow> config_file \<Rightarrow> config \<times> string list" where
  "load std path file =
     (if file = Missing then
        (default_config, [''[nwarp] warning: config file '' @ quoted path @ '' not found, using built-in defaults''])
      else case read_to_string file of
        Inl e \<Rightarrow> (default_config, [''[nwarp] warning: could not read '' @ quoted path @ '': '' @ err_msg e])
      | Inr contents \<Rightarrow>
          (let m = parse_kv contents
           in (load_routes std m (load_settings m default_config), [])))"

subsection \<open>What \<open>load\<close> returns\<close>

text \<open>The bindings of a file in order; the last binding of a key is the one that counts.\<close>

definition bindings :: "string \<Rightarrow> (string \<times> string) list" where
  "bindings contents = List.map_filter kv_of_line (lines contents)"

definition setting :: "string \<Rightarrow> string \<Rightarrow> string option" where
  "setting contents k = map_of (rev (bindings contents)) k"

lemma fold_option_map_filter:
  "fold (\<lambda>x m. case f x of None \<Rightarrow> m | Some (k, v) \<Rightarrow> g k v m) xs m =
   fold (\<lambda>(k, v). g k v) (List.map_filter f xs) m"
  by (induction xs arbitrary: m) (auto simp: List.map_filter_simps split: option.splits)

lemma parse_kv_fold: "parse_kv contents = fold (\<lambda>(k, v). hm_insert k v) (bindings contents) []"
  unfolding parse_kv_def bindings_def by (rule fold_option_map_filter)

lemma parse_kv_ok [simp]: "hm_ok (parse_kv contents)"
  unfolding parse_kv_fold by (rule hm.invar_fold [OF hm.invar_empty])

lemma parse_kv_get: "hm_get (parse_kv contents) k = setting contents k"
  unfolding parse_kv_fold setting_def by (rule hm.get_fold_empty)

lemma parse_kv_entry: "(k, v) \<in> set (parse_kv contents) \<Longrightarrow> setting contents k = Some v"
  using hm.entries_get [OF parse_kv_ok] parse_kv_get by simp

lemma kv_of_line_tight: "kv_of_line l = Some (k, v) \<Longrightarrow> tight k"
  by (auto simp: kv_of_line_def Let_def trim_tight split: if_splits)

lemma setting_tight: "setting contents k = Some v \<Longrightarrow> tight k"
  unfolding setting_def bindings_def
  by (auto dest!: map_of_SomeD simp: map_filter_def kv_of_line_tight)

subsection \<open>The well-formedness of a loaded configuration\<close>

definition proxy_route_wf :: "string \<times> string list \<Rightarrow> bool" where
  "proxy_route_wf = (\<lambda>(p, us). p \<noteq> [] \<and> tight p \<and> us \<noteq> [] \<and> (\<forall>u \<in> set us. u \<noteq> [] \<and> tight u))"

definition wasm_route_wf :: "string \<times> string \<Rightarrow> bool" where
  "wasm_route_wf = (\<lambda>(p, f). p \<noteq> [] \<and> tight p \<and> tight f)"

definition config_wf :: "config \<Rightarrow> bool" where
  "config_wf cfg = (1 \<le> worker_threads cfg \<and> 1 \<le> health_check_interval_secs cfg \<and>
     1 \<le> health_check_timeout_secs cfg \<and>
     (\<forall>r \<in> set (proxy_routes cfg). proxy_route_wf r) \<and> (\<forall>r \<in> set (wasm_routes cfg). wasm_route_wf r))"

text \<open>
  A trimmed key that starts with a route keyword and a blank has a non-empty rest that does
  not trim to nothing, so no route has the empty prefix (which would match every path).
\<close>

lemma route_key_rest:
  assumes "tight k" and "strip_prefix (kw @ '' '') k = Some pre"
  shows "trim pre \<noteq> []"
proof
  assume e: "trim pre = []"
  have k: "k = kw @ '' '' @ pre" using assms(2) by (auto simp: strip_prefix_def prefix_def split: if_splits)
  have "0 < ws_back (rev k)"
  proof (cases "pre = []")
    case True
    then show ?thesis by (simp add: k ws_back_def ws1_def)
  next
    case False
    then show ?thesis
      using trim_empty_ws_back [OF e] ws_back_append [of "rev pre" "'' '' @ rev kw"] by (simp add: k)
  qed
  then show False using assms(1) by (simp add: tight_def)
qed

lemma proxy_route_of_wf: "tight k \<Longrightarrow> proxy_route_of (k, v) = Some r \<Longrightarrow> proxy_route_wf r"
  using route_key_rest [of k "''proxy_route''"]
  by (auto simp: proxy_route_of_def proxy_route_wf_def Let_def trim_tight filter_empty_conv
      split: option.splits if_splits)

lemma wasm_route_of_wf: "tight k \<Longrightarrow> wasm_route_of (k, v) = Some r \<Longrightarrow> wasm_route_wf r"
  using route_key_rest [of k "''wasm_route''"]
  by (auto simp: wasm_route_of_def wasm_route_wf_def trim_tight)

text \<open>
  The settings in closed form: each field is the value of its key where the key is present
  (and, for a number, parses), and the previous value otherwise.
\<close>

definition value_or :: "string option \<Rightarrow> (string \<Rightarrow> 'a option) \<Rightarrow> 'a \<Rightarrow> 'a" where
  "value_or ov parse d = (case ov of None \<Rightarrow> d | Some v \<Rightarrow> (case parse v of None \<Rightarrow> d | Some x \<Rightarrow> x))"

definition at_least_one :: "('a::len word) option \<Rightarrow> 'a word option" where
  "at_least_one = map_option (\<lambda>n. max n 1)"

lemma with_key_steps:
  "with_key m k (\<lambda>v c. c\<lparr>host := v\<rparr>) cfg = cfg\<lparr>host := value_or (hm_get m k) Some (host cfg)\<rparr>"
  "with_key m k (\<lambda>v c. c\<lparr>document_root := v\<rparr>) cfg = cfg\<lparr>document_root := value_or (hm_get m k) Some (document_root cfg)\<rparr>"
  "with_key m k (\<lambda>v c. c\<lparr>server_name := v\<rparr>) cfg = cfg\<lparr>server_name := value_or (hm_get m k) Some (server_name cfg)\<rparr>"
  "with_key m k (\<lambda>v c. c\<lparr>index_file := v\<rparr>) cfg = cfg\<lparr>index_file := value_or (hm_get m k) Some (index_file cfg)\<rparr>"
  "with_key m k (\<lambda>v c. c\<lparr>access_log := v\<rparr>) cfg = cfg\<lparr>access_log := value_or (hm_get m k) Some (access_log cfg)\<rparr>"
  "with_key m k (\<lambda>v c. c\<lparr>error_log := v\<rparr>) cfg = cfg\<lparr>error_log := value_or (hm_get m k) Some (error_log cfg)\<rparr>"
  "with_key m k (\<lambda>v c. c\<lparr>tls_cert := v\<rparr>) cfg = cfg\<lparr>tls_cert := value_or (hm_get m k) Some (tls_cert cfg)\<rparr>"
  "with_key m k (\<lambda>v c. c\<lparr>tls_key := v\<rparr>) cfg = cfg\<lparr>tls_key := value_or (hm_get m k) Some (tls_key cfg)\<rparr>"
  "with_key m k (\<lambda>v c. c\<lparr>tls_enabled := g v\<rparr>) cfg =
     cfg\<lparr>tls_enabled := value_or (hm_get m k) (\<lambda>v. Some (g v)) (tls_enabled cfg)\<rparr>"
  by (simp_all add: with_key_def value_or_def split: option.splits)

lemma with_num_steps:
  "with_num m k (\<lambda>p c. c\<lparr>port := p\<rparr>) cfg = cfg\<lparr>port := value_or (hm_get m k) parse_uint (port cfg)\<rparr>"
  "with_num m k (\<lambda>p c. c\<lparr>tls_port := p\<rparr>) cfg = cfg\<lparr>tls_port := value_or (hm_get m k) parse_uint (tls_port cfg)\<rparr>"
  "with_num m k (\<lambda>n c. c\<lparr>worker_threads := max n 1\<rparr>) cfg =
     cfg\<lparr>worker_threads := value_or (hm_get m k) (at_least_one \<circ> parse_uint) (worker_threads cfg)\<rparr>"
  "with_num m k (\<lambda>n c. c\<lparr>health_check_interval_secs := max n 1\<rparr>) cfg =
     cfg\<lparr>health_check_interval_secs :=
       value_or (hm_get m k) (at_least_one \<circ> parse_uint) (health_check_interval_secs cfg)\<rparr>"
  "with_num m k (\<lambda>n c. c\<lparr>health_check_timeout_secs := max n 1\<rparr>) cfg =
     cfg\<lparr>health_check_timeout_secs :=
       value_or (hm_get m k) (at_least_one \<circ> parse_uint) (health_check_timeout_secs cfg)\<rparr>"
  by (simp_all add: with_num_def with_key_def value_or_def at_least_one_def split: option.splits)

lemma load_settings_eq: "load_settings m cfg = cfg\<lparr>
     host := value_or (hm_get m ''host'') Some (host cfg),
     port := value_or (hm_get m ''port'') parse_uint (port cfg),
     document_root := value_or (hm_get m ''document_root'') Some (document_root cfg),
     server_name := value_or (hm_get m ''server_name'') Some (server_name cfg),
     index_file := value_or (hm_get m ''index'') Some (index_file cfg),
     worker_threads := value_or (hm_get m ''worker_threads'') (at_least_one \<circ> parse_uint) (worker_threads cfg),
     access_log := value_or (hm_get m ''access_log'') Some (access_log cfg),
     error_log := value_or (hm_get m ''error_log'') Some (error_log cfg),
     tls_enabled := value_or (hm_get m ''tls_enabled'')
       (\<lambda>v. Some (eq_ignore_ascii_case v ''true'' \<or> v = ''1'')) (tls_enabled cfg),
     tls_port := value_or (hm_get m ''tls_port'') parse_uint (tls_port cfg),
     tls_cert := value_or (hm_get m ''tls_cert'') Some (tls_cert cfg),
     tls_key := value_or (hm_get m ''tls_key'') Some (tls_key cfg),
     health_check_interval_secs := value_or (hm_get m ''health_check_interval'')
       (at_least_one \<circ> parse_uint) (health_check_interval_secs cfg),
     health_check_timeout_secs := value_or (hm_get m ''health_check_timeout'')
       (at_least_one \<circ> parse_uint) (health_check_timeout_secs cfg)\<rparr>"
  by (cases cfg) (simp add: load_settings_def Let_def with_key_steps with_num_steps)

lemma value_or_at_least_one: "1 \<le> d \<Longrightarrow> 1 \<le> value_or ov (at_least_one \<circ> parse) d"
  by (auto simp: value_or_def at_least_one_def split: option.splits)

lemma load_settings_keeps [keeps]:
  "1 \<le> worker_threads cfg \<Longrightarrow> 1 \<le> worker_threads (load_settings m cfg)"
  "1 \<le> health_check_interval_secs cfg \<Longrightarrow> 1 \<le> health_check_interval_secs (load_settings m cfg)"
  "1 \<le> health_check_timeout_secs cfg \<Longrightarrow> 1 \<le> health_check_timeout_secs (load_settings m cfg)"
  "proxy_routes (load_settings m cfg) = proxy_routes cfg"
  "wasm_routes (load_settings m cfg) = wasm_routes cfg"
  by (simp_all add: load_settings_eq value_or_at_least_one)

lemma load_routes_wf:
  assumes "std_ok std"
  shows "config_wf (load_routes std (parse_kv contents) (load_settings (parse_kv contents) default_config))"
proof -
  have tight_key: "tight k" if "(k, v) \<in> set (hash_order std (parse_kv contents))" for k v
    using that setting_tight parse_kv_entry by (simp add: hash_order_set [OF assms]) blast
  have "\<forall>r \<in> set (List.map_filter proxy_route_of (hash_order std (parse_kv contents))). proxy_route_wf r"
    by (auto simp: map_filter_def dest!: tight_key proxy_route_of_wf)
  moreover have "\<forall>r \<in> set (List.map_filter wasm_route_of (hash_order std (parse_kv contents))). wasm_route_wf r"
    by (auto simp: map_filter_def dest!: tight_key wasm_route_of_wf)
  ultimately show ?thesis
    by (simp add: config_wf_def load_routes_def keeps default_config_def)
qed

lemma default_config_wf: "config_wf default_config"
  by (simp add: config_wf_def default_config_def)

text \<open>
  C34: Whatever the configuration file holds (or if it is missing, unreadable or not UTF-8),
  the loaded configuration has at least one worker thread, positive health-check interval and
  timeout, no proxy or WASM route with an empty prefix, no proxy route without upstreams and
  no empty upstream address, all of them free of surrounding whitespace.
\<close>

theorem load_well_formed:
  assumes "std_ok std"
  shows "config_wf (fst (load std path file))"
  using default_config_wf load_routes_wf [OF assms]
  by (auto simp: load_def Let_def split: sum.splits)

theorem load_well_formed_witness:
  "config_wf (fst (load std_rev ''nwarp.conf'' (Contents ''worker_threads = 0'')))"
  by (rule load_well_formed [OF std_rev_ok])

lemma load_contents:
  "utf8_valid contents \<Longrightarrow> load std path (Contents contents) =
     (load_routes std (parse_kv contents) (load_settings (parse_kv contents) default_config), [])"
  by (simp add: load_def read_to_string_def Let_def)

text \<open>
  C32: For a readable file every scalar field of the loaded configuration is determined by the
  last line that binds its key: strings are taken as they are, numbers are taken if they parse
  at the width of the field and otherwise the default stays, the worker count and the
  health-check times are raised to at least one, and \<open>tls_enabled\<close> is true exactly for
  \<open>true\<close> in any case and for \<open>1\<close>. No warning is printed.
\<close>

theorem load_settings_spec:
  assumes "utf8_valid contents"
  shows "fst (load std path (Contents contents))\<lparr>proxy_routes := [], wasm_routes := []\<rparr> = \<lparr>
     host = value_or (setting contents ''host'') Some ''0.0.0.0'',
     port = value_or (setting contents ''port'') parse_uint 9090,
     document_root = value_or (setting contents ''document_root'') Some ''./www'',
     server_name = value_or (setting contents ''server_name'') Some ''NWarp'',
     index_file = value_or (setting contents ''index'') Some ''index.html'',
     worker_threads = value_or (setting contents ''worker_threads'') (at_least_one \<circ> parse_uint) 4,
     access_log = value_or (setting contents ''access_log'') Some ''./logs/access.log'',
     error_log = value_or (setting contents ''error_log'') Some ''./logs/error.log'',
     tls_enabled = value_or (setting contents ''tls_enabled'')
       (\<lambda>v. Some (eq_ignore_ascii_case v ''true'' \<or> v = ''1'')) False,
     tls_port = value_or (setting contents ''tls_port'') parse_uint 9443,
     tls_cert = value_or (setting contents ''tls_cert'') Some ''./certs/dev-cert.pem'',
     tls_key = value_or (setting contents ''tls_key'') Some ''./certs/dev-key.pem'',
     proxy_routes = [], wasm_routes = [],
     health_check_interval_secs = value_or (setting contents ''health_check_interval'') (at_least_one \<circ> parse_uint) 5,
     health_check_timeout_secs = value_or (setting contents ''health_check_timeout'') (at_least_one \<circ> parse_uint) 2\<rparr> \<and>
   snd (load std path (Contents contents)) = []"
  by (simp add: load_contents [OF assms] load_routes_def load_settings_eq parse_kv_get default_config_def)

text \<open>A small configuration file: a comment, a repeated key, a quoted value, a bad number.\<close>

definition sample_conf :: string where
  "sample_conf = ''# sample'' @ [LF] @ ''port = 80'' @ [LF] @ ''port = 8080'' @ [LF] @
     ''server_name = '' @ [CHR 0x22] @ ''Edge'' @ [CHR 0x22, LF] @ ''tls_port = 70000'' @ crlf @
     ''worker_threads = 0'' @ [LF] @ ''tls_enabled = TRUE'' @ [LF] @
     ''proxy_route /api = http://127.0.0.1:5001, ,http://127.0.0.1:5002'' @ [LF]"

lemma sample_conf_utf8: "utf8_valid sample_conf"
  by code_simp

lemma sample_bindings: "bindings sample_conf =
   [(''port'', ''80''), (''port'', ''8080''), (''server_name'', ''Edge''), (''tls_port'', ''70000''),
    (''worker_threads'', ''0''), (''tls_enabled'', ''TRUE''),
    (''proxy_route /api'', ''http://127.0.0.1:5001, ,http://127.0.0.1:5002'')]"
  by code_simp

theorem load_settings_spec_witness:
  "fst (load std_id ''f'' (Contents sample_conf))\<lparr>proxy_routes := [], wasm_routes := []\<rparr> =
     default_config\<lparr>port := 8080, server_name := ''Edge'', worker_threads := 1, tls_enabled := True\<rparr> \<and>
   snd (load std_id ''f'' (Contents sample_conf)) = []"
proof -
  have num: "(parse_uint ''8080'' :: u16 option) = Some 8080" "(parse_uint ''70000'' :: u16 option) = None"
    "(parse_uint ''0'' :: usize option) = Some 0"
    by (simp_all add: from_str_radix_def digit_val_def)
  have case_insensitive: "eq_ignore_ascii_case ''TRUE'' ''true''" by code_simp
  show ?thesis
    using load_settings_spec [OF sample_conf_utf8, of std_id "''f''"]
    by (simp add: setting_def sample_bindings value_or_def at_least_one_def num case_insensitive
        default_config_def)
qed

lemma set_map_filter: "set (List.map_filter f xs) = {r. \<exists>x \<in> set xs. f x = Some r}"
  by (force simp: map_filter_def)

lemma hash_order_entry:
  "std_ok std \<Longrightarrow> (k, v) \<in> set (hash_order std (parse_kv contents)) \<longleftrightarrow> setting contents k = Some v"
  by (simp add: hash_order_set hm.entries_get parse_kv_get)

lemma mset_map_filter_order:
  "std_ok std \<Longrightarrow> hm_ok m \<Longrightarrow>
   mset (List.map_filter f (hash_order std m)) = mset (List.map_filter f m)"
  by (simp add: map_filter_def std_ok_def mset_filter)

lemma load_routes_set:
  assumes "std_ok std" and "utf8_valid contents"
  shows "set (proxy_routes (fst (load std path (Contents contents)))) =
       {r. \<exists>k v. setting contents k = Some v \<and> proxy_route_of (k, v) = Some r}"
    and "set (wasm_routes (fst (load std path (Contents contents)))) =
       {r. \<exists>k v. setting contents k = Some v \<and> wasm_route_of (k, v) = Some r}"
proof -
  have routes: "proxy_routes (fst (load s path (Contents contents))) =
        List.map_filter proxy_route_of (hash_order s (parse_kv contents))"
      "wasm_routes (fst (load s path (Contents contents))) =
        List.map_filter wasm_route_of (hash_order s (parse_kv contents))" for s
    by (simp_all add: load_contents [OF assms(2)] load_routes_def keeps default_config_def)
  have entry: "(\<exists>x \<in> set (hash_order std (parse_kv contents)). f x = Some r) \<longleftrightarrow>
        (\<exists>k v. setting contents k = Some v \<and> f (k, v) = Some r)"
    for f :: "string \<times> string \<Rightarrow> 'a option" and r
    using hash_order_entry [OF assms(1), of _ _ contents] by force
  show "set (proxy_routes (fst (load std path (Contents contents)))) =
       {r. \<exists>k v. setting contents k = Some v \<and> proxy_route_of (k, v) = Some r}"
    and "set (wasm_routes (fst (load std path (Contents contents)))) =
       {r. \<exists>k v. setting contents k = Some v \<and> wasm_route_of (k, v) = Some r}"
    unfolding routes set_map_filter entry by simp_all
qed

lemma load_routes_mset:
  assumes "std_ok std" and "utf8_valid contents"
  shows "mset (proxy_routes (fst (load std path (Contents contents)))) =
       mset (List.map_filter proxy_route_of (parse_kv contents))"
    and "mset (wasm_routes (fst (load std path (Contents contents)))) =
       mset (List.map_filter wasm_route_of (parse_kv contents))"
  by (simp_all add: load_contents [OF assms(2)] load_routes_def keeps default_config_def
      mset_map_filter_order [OF assms(1)])

text \<open>
  What a line binds, said without the parser's functions: the part before the first equals
  sign is the key, the part after it the value; the last line that binds a key counts.
\<close>

definition line_binds :: "string \<Rightarrow> string \<Rightarrow> string \<Rightarrow> bool" where
  "line_binds l k v = (\<exists>a b. trim l = a @ CHR ''='' # b \<and> CHR ''='' \<notin> set a \<and> \<not> prefix ''#'' (trim l) \<and>
     k = trim a \<and> v = trim_char (CHR 0x22) (trim b))"

definition file_binds :: "string \<Rightarrow> string \<Rightarrow> string \<Rightarrow> bool" where
  "file_binds contents k v = (\<exists>before l after. lines contents = before @ l # after \<and> line_binds l k v \<and>
     (\<forall>l' \<in> set after. \<forall>v'. \<not> line_binds l' k v'))"

fun join_with :: "char \<Rightarrow> string list \<Rightarrow> string" where
  "join_with c [] = []"
| "join_with c [p] = p"
| "join_with c (p # ps) = p @ c # join_with c ps"

text \<open>A list of upstreams: what is between the commas, trimmed, without the empty ones.\<close>

definition upstream_list :: "string \<Rightarrow> string list \<Rightarrow> bool" where
  "upstream_list v us = (\<exists>parts. parts \<noteq> [] \<and> v = join_with (CHR '','') parts \<and>
     (\<forall>p \<in> set parts. CHR '','' \<notin> set p) \<and> us = filter (\<lambda>u. u \<noteq> []) (map trim parts))"

lemma kv_of_line_binds: "kv_of_line l = Some (k, v) \<longleftrightarrow> line_binds l k v"
  by (auto simp: kv_of_line_def line_binds_def Let_def split_once_Some)

lemma map_of_rev_last:
  "map_of (rev (List.map_filter f ls)) k = Some v \<longleftrightarrow>
     (\<exists>before l after. ls = before @ l # after \<and> f l = Some (k, v) \<and> (\<forall>l' \<in> set after. \<forall>v'. f l' \<noteq> Some (k, v')))"
proof (induction ls rule: rev_induct)
  case (snoc x ls)
  have snoc_iff: "(\<exists>before l after. ls @ [x] = before @ l # after \<and> P l \<and> (\<forall>l' \<in> set after. Q l')) \<longleftrightarrow>
      P x \<or> Q x \<and> (\<exists>before l after. ls = before @ l # after \<and> P l \<and> (\<forall>l' \<in> set after. Q l'))" for P Q
  proof
    assume "\<exists>before l after. ls @ [x] = before @ l # after \<and> P l \<and> (\<forall>l' \<in> set after. Q l')"
    then obtain before l after where d: "ls @ [x] = before @ l # after" "P l" "\<forall>l' \<in> set after. Q l'" by blast
    then show "P x \<or> Q x \<and> (\<exists>before l after. ls = before @ l # after \<and> P l \<and> (\<forall>l' \<in> set after. Q l'))"
      by (cases after rule: rev_cases) fastforce+
  next
    assume "P x \<or> Q x \<and> (\<exists>before l after. ls = before @ l # after \<and> P l \<and> (\<forall>l' \<in> set after. Q l'))"
    then show "\<exists>before l after. ls @ [x] = before @ l # after \<and> P l \<and> (\<forall>l' \<in> set after. Q l')"
    proof
      assume "P x"
      then show ?thesis by (intro exI [of _ ls] exI [of _ x] exI [of _ "[]"]) simp
    next
      assume "Q x \<and> (\<exists>before l after. ls = before @ l # after \<and> P l \<and> (\<forall>l' \<in> set after. Q l'))"
      then obtain before l after where "Q x" "ls = before @ l # after" "P l" "\<forall>l' \<in> set after. Q l'" by blast
      then show ?thesis by (intro exI [of _ before] exI [of _ l] exI [of _ "after @ [x]"]) auto
    qed
  qed
  have "map_of (rev (List.map_filter f (ls @ [x]))) k =
      (case f x of Some (k', v') \<Rightarrow> if k' = k then Some v' else map_of (rev (List.map_filter f ls)) k
       | None \<Rightarrow> map_of (rev (List.map_filter f ls)) k)"
    by (auto simp: map_filter_def split: option.split)
  then show ?case unfolding snoc_iff using snoc by (auto split: option.split)
qed (simp add: map_filter_def)

lemma setting_file_binds: "setting contents k = Some v \<longleftrightarrow> file_binds contents k v"
  unfolding setting_def bindings_def map_of_rev_last file_binds_def kv_of_line_binds [symmetric] ..

lemma split_on_single: "c \<notin> set p \<Longrightarrow> split_on c p = [p]"
proof -
  have "c \<notin> set p \<Longrightarrow> split_from c w p = [rev w @ p]" for w by (induction p arbitrary: w) auto
  then show "c \<notin> set p \<Longrightarrow> split_on c p = [p]" by (simp add: split_on_def)
qed

lemma split_on_join: "parts \<noteq> [] \<Longrightarrow> \<forall>p \<in> set parts. c \<notin> set p \<Longrightarrow> split_on c (join_with c parts) = parts"
  by (induction c parts rule: join_with.induct) (simp_all add: split_on_single split_on_sep)

lemma join_split_on: "join_with c (split_on c s) = s \<and> (\<forall>p \<in> set (split_on c s). c \<notin> set p)"
proof -
  have "c \<notin> set w \<Longrightarrow> join_with c (split_from c w s) = rev w @ s \<and> (\<forall>p \<in> set (split_from c w s). c \<notin> set p)" for w
  proof (induction s arbitrary: w)
    case (Cons x s)
    have "split_from c [] s \<noteq> []" using split_on_nonempty [of c s] by (simp add: split_on_def)
    then obtain q qs where q: "split_from c [] s = q # qs" by (cases "split_from c [] s") auto
    then show ?case using Cons.IH [of "[]"] Cons.IH [of "x # w"] Cons.prems by auto
  qed simp
  from this [of "[]"] show ?thesis by (simp add: split_on_def)
qed

lemma upstream_list_split: "upstream_list v us \<longleftrightarrow> us = filter (\<lambda>u. u \<noteq> []) (map trim (split_on (CHR '','') v))"
  unfolding upstream_list_def by (metis join_split_on split_on_join split_on_nonempty)

lemma strip_prefix_Some: "strip_prefix p s = Some t \<longleftrightarrow> s = p @ t"
  by (auto simp: strip_prefix_def prefix_def)

lemma proxy_route_of_Some: "proxy_route_of (k, v) = Some r \<longleftrightarrow>
    (\<exists>pre us. k = ''proxy_route '' @ pre \<and> upstream_list v us \<and> us \<noteq> [] \<and> r = (trim pre, us))"
proof (cases "strip_prefix ''proxy_route '' k")
  case None
  then have "\<nexists>pre. k = ''proxy_route '' @ pre" by (metis strip_prefix_Some option.distinct(1))
  then show ?thesis by (simp only: proxy_route_of_def prod.case None option.case) blast
next
  case (Some pre)
  then have "k = ''proxy_route '' @ pre' \<longleftrightarrow> pre' = pre" for pre' by (metis strip_prefix_Some option.inject)
  then show ?thesis
    by (auto simp only: proxy_route_of_def prod.case Some option.case upstream_list_split Let_def
        split: if_splits)
qed

lemma wasm_route_of_Some: "wasm_route_of (k, v) = Some r \<longleftrightarrow>
    (\<exists>pre. k = ''wasm_route '' @ pre \<and> r = (trim pre, trim v))"
  by (auto simp: wasm_route_of_def strip_prefix_Some)

text \<open>
  C33: The routes of a readable file are exactly those its lines describe: a proxy route for
  every key \<open>proxy_route\<close> with a prefix whose value has an upstream between its commas, with
  all of them in order, and a WASM route for every key \<open>wasm_route\<close> with a prefix; a key
  bound twice counts once, with its last value. The order in which the hash map is visited
  changes nothing but the order of the two route lists.
\<close>

theorem load_routes_spec:
  assumes "std_ok std" and "std_ok std'" and "utf8_valid contents"
  shows "set (proxy_routes (fst (load std path (Contents contents)))) =
       {(trim pre, us) | pre v us. file_binds contents (''proxy_route '' @ pre) v \<and> upstream_list v us \<and> us \<noteq> []} \<and>
     set (wasm_routes (fst (load std path (Contents contents)))) =
       {(trim pre, trim v) | pre v. file_binds contents (''wasm_route '' @ pre) v} \<and>
     (\<exists>ps ws. load std' path (Contents contents) =
         ((fst (load std path (Contents contents)))\<lparr>proxy_routes := ps, wasm_routes := ws\<rparr>, []) \<and>
       mset ps = mset (proxy_routes (fst (load std path (Contents contents)))) \<and>
       mset ws = mset (wasm_routes (fst (load std path (Contents contents)))))"
proof (intro conjI)
  show "set (proxy_routes (fst (load std path (Contents contents)))) =
       {(trim pre, us) | pre v us. file_binds contents (''proxy_route '' @ pre) v \<and> upstream_list v us \<and> us \<noteq> []}"
    unfolding load_routes_set [OF assms(1,3)] proxy_route_of_Some setting_file_binds by blast
  show "set (wasm_routes (fst (load std path (Contents contents)))) =
       {(trim pre, trim v) | pre v. file_binds contents (''wasm_route '' @ pre) v}"
    unfolding load_routes_set [OF assms(1,3)] wasm_route_of_Some setting_file_binds by blast
  show "\<exists>ps ws. load std' path (Contents contents) =
         ((fst (load std path (Contents contents)))\<lparr>proxy_routes := ps, wasm_routes := ws\<rparr>, []) \<and>
       mset ps = mset (proxy_routes (fst (load std path (Contents contents)))) \<and>
       mset ws = mset (wasm_routes (fst (load std path (Contents contents))))"
    by (intro exI [of _ "proxy_routes (fst (load std' path (Contents contents)))"]
          exI [of _ "wasm_routes (fst (load std' path (Contents contents)))"])
      (simp add: load_routes_mset [OF assms(1,3)] load_routes_mset [OF assms(2,3)],
       simp add: load_contents [OF assms(3)] load_routes_def)
qed

text \<open>The witness: one route, of two upstreams with a blank between two commas.\<close>

lemma sample_route_line: "file_binds sample_conf k v \<longleftrightarrow> setting sample_conf k = Some v"
  by (simp add: setting_file_binds)

lemma sample_setting: "setting sample_conf (''proxy_route '' @ pre) =
    (if pre = ''/api'' then Some ''http://127.0.0.1:5001, ,http://127.0.0.1:5002'' else None)"
  by (simp add: setting_def sample_bindings)

lemma sample_upstreams: "upstream_list ''http://127.0.0.1:5001, ,http://127.0.0.1:5002'' us \<longleftrightarrow>
    us = [''http://127.0.0.1:5001'', ''http://127.0.0.1:5002'']"
proof -
  have "filter (\<lambda>u. u \<noteq> []) (map trim (split_on (CHR '','') ''http://127.0.0.1:5001, ,http://127.0.0.1:5002'')) =
      [''http://127.0.0.1:5001'', ''http://127.0.0.1:5002'']" by code_simp
  then show ?thesis by (simp only: upstream_list_split)
qed

theorem load_routes_spec_witness:
  "set (proxy_routes (fst (load std_rev ''f'' (Contents sample_conf)))) =
     {(''/api'', [''http://127.0.0.1:5001'', ''http://127.0.0.1:5002''])}"
proof -
  have api: "trim ''/api'' = ''/api''" by code_simp
  have "{(trim pre, us) | pre v us. file_binds sample_conf (''proxy_route '' @ pre) v \<and> upstream_list v us \<and> us \<noteq> []} =
      {(''/api'', [''http://127.0.0.1:5001'', ''http://127.0.0.1:5002''])}"
    unfolding sample_route_line sample_setting using api by (auto simp: sample_upstreams split: if_splits)
  then show ?thesis using load_routes_spec [OF std_rev_ok std_id_ok sample_conf_utf8, of "''f''"] by simp
qed

lemma sample_conf_routes: "proxy_routes (fst (load std_id ''f'' (Contents sample_conf))) =
    [(''/api'', [''http://127.0.0.1:5001'', ''http://127.0.0.1:5002''])]"
  by code_simp

text \<open>
  A missing file, an unreadable file and a file that is not UTF-8 all give the built-in
  defaults, with one warning on standard error.
\<close>

theorem load_fallback:
  assumes "file = Missing \<or> (\<exists>e. read_to_string file = Inl e)"
  shows "fst (load std path file) = default_config \<and> length (snd (load std path file)) = 1"
  using assms by (auto simp: load_def)

theorem load_fallback_witness:
  "fst (load std_id ''f'' (Contents [CHR 0xFF])) = default_config \<and>
   length (snd (load std_id ''f'' (Contents [CHR 0xFF]))) = 1"
proof -
  have "\<not> utf8_valid [CHR 0xFF]" by code_simp
  then show ?thesis by (intro load_fallback) (simp add: read_to_string_def)
qed

end
