(* ===== verification/Request.thy ===== *)
theory Request
  imports Rust_Map
begin

section \<open>HTTP/1.x request parsing (src/http/request.rs)\<close>

text \<open>
  \<open>Request::parse\<close> over an input stream, with the path sanitizer and the percent decoder.
  The result of \<open>parse\<close> is a poll: it fails on a read error or on bytes that are not UTF-8
  and stays pending for ever if the peer falls silent in the middle of the head.
\<close>

record request =
  req_method :: string
  req_path :: string
  req_version :: string
  req_headers :: hashmap

subsection \<open>Percent decoding\<close>

definition hex_byte :: "bytes \<Rightarrow> char option" where
  "hex_byte hex =
     (if utf8_valid hex
      then map_option (\<lambda>v. char_of (unat v)) (from_str_radix 16 hex :: 8 word option)
      else None)"

text \<open>The loop over the bytes: \<open>b # r\<close> is the input from the index \<open>i\<close> on.\<close>

function percent_bytes :: "bytes \<Rightarrow> bytes" where
  "percent_bytes [] = []"
| "percent_bytes (b # r) =
     (case (if b = CHR ''%'' \<and> 2 \<le> length r then hex_byte (take 2 r) else None) of
        Some v \<Rightarrow> v # percent_bytes (drop 2 r)
      | None \<Rightarrow> b # percent_bytes r)"
  by pat_completeness auto
termination
  by (relation "measure length") auto

definition percent_decode :: "string \<Rightarrow> string" where
  "percent_decode input = from_utf8_lossy (percent_bytes input)"

definition sanitize_path :: "string \<Rightarrow> string" where
  "sanitize_path raw =
     (let path = hd (split_on (CHR ''?'') raw);
          decoded = percent_decode path
      in if contains decoded ''..'' then ''/'' else decoded)"

subsection \<open>\<open>Request::parse\<close>\<close>

definition header_of_line :: "std_params \<Rightarrow> string \<Rightarrow> (string \<times> string) option" where
  "header_of_line std line =
     map_option (\<lambda>(k, v). (to_lowercase (uni_lower std) (trim k), trim v))
       (split_once (CHR '':'') (trim_end line))"

function read_headers :: "std_params \<Rightarrow> instream \<Rightarrow> hashmap \<Rightarrow> (hashmap \<times> instream) poll" where
  "read_headers std s headers =
     (case read_line s of
        Pending \<Rightarrow> Pending
      | Ready (Inl e) \<Rightarrow> Ready (Inl e)
      | Ready (Inr (line, s')) \<Rightarrow>
          if line = [] \<or> trim line = [] then Ready (Inr (headers, s'))
          else read_headers std s'
            (case header_of_line std line of None \<Rightarrow> headers | Some (k, v) \<Rightarrow> hm_insert k v headers))"
  by pat_completeness auto
termination
  by (relation "measure (\<lambda>(std, s, headers). length (avail s))") (auto dest: read_line_progress)

definition nth_or :: "nat \<Rightarrow> string list \<Rightarrow> string \<Rightarrow> string" where
  "nth_or n parts d = (if n < length parts then parts ! n else d)"

definition parse :: "std_params \<Rightarrow> instream \<Rightarrow> (request \<times> instream) poll" where
  "parse std s =
     (case read_line s of
        Pending \<Rightarrow> Pending
      | Ready (Inl e) \<Rightarrow> Ready (Inl e)
      | Ready (Inr (request_line, s1)) \<Rightarrow>
          (let parts = split_whitespace (trim_end request_line);
               meth = nth_or 0 parts [];
               raw_path = nth_or 1 parts ''/'';
               version = nth_or 2 parts ''HTTP/1.1''
           in case read_headers std s1 [] of
                Pending \<Rightarrow> Pending
              | Ready (Inl e) \<Rightarrow> Ready (Inl e)
              | Ready (Inr (headers, s2)) \<Rightarrow>
                  Ready (Inr (\<lparr>req_method = meth, req_path = sanitize_path raw_path,
                               req_version = version, req_headers = headers\<rparr>, s2))))"

declare read_headers.simps [simp del]

subsection \<open>Percent decoding inverts percent encoding\<close>

text \<open>
  The reference encoder: bytes outside \<open>keep\<close> become a percent sign and two hex digits.
\<close>

definition hex_digit :: "nat \<Rightarrow> char" where
  "hex_digit d = char_of (if d < 10 then 48 + d else 55 + d)"

definition encode_byte :: "(char \<Rightarrow> bool) \<Rightarrow> char \<Rightarrow> string" where
  "encode_byte keep c =
     (if keep c then [c] else [CHR ''%'', hex_digit (byte c div 16), hex_digit (byte c mod 16)])"

definition percent_encode :: "(char \<Rightarrow> bool) \<Rightarrow> bytes \<Rightarrow> string" where
  "percent_encode keep s = concat (map (encode_byte keep) s)"

lemma hex_digit_byte: "d < 16 \<Longrightarrow> byte (hex_digit d) = (if d < 10 then 48 + d else 55 + d)"
  by (simp add: hex_digit_def)

lemma digit_val_hex: "d < 16 \<Longrightarrow> digit_val 16 (hex_digit d) = Some d"
  by (auto simp: digit_val_def hex_digit_byte Let_def)

lemma hex_digit_plus: "d < 16 \<Longrightarrow> hex_digit d \<noteq> CHR ''+''"
  using hex_digit_byte [of d] by (auto split: if_splits)

lemma hex_byte_digits: "n < 256 \<Longrightarrow> hex_byte [hex_digit (n div 16), hex_digit (n mod 16)] = Some (char_of n)"
proof -
  assume n: "n < 256"
  have d: "n div 16 < 16" "n mod 16 < 16" using n by auto
  have u: "utf8_valid [hex_digit (n div 16), hex_digit (n mod 16)]"
    using d by (intro utf8_valid_of_ascii) (auto simp: hex_digit_byte)
  have "(from_str_radix 16 [hex_digit (n div 16), hex_digit (n mod 16)] :: 8 word option) = Some (word_of_nat n)"
    using n d by (simp add: from_str_radix_def hex_digit_plus digit_val_hex)
  moreover have "unat (word_of_nat n :: 8 word) = n"
    using n by (simp add: unat_of_nat)
  ultimately show ?thesis by (simp add: hex_byte_def u)
qed

lemma percent_bytes_encode: "\<not> keep (CHR ''%'') \<Longrightarrow> percent_bytes (percent_encode keep s) = s"
proof (induction s)
  case (Cons c s)
  then show ?case
    by (cases "keep c") (auto simp: percent_encode_def encode_byte_def hex_byte_digits)
qed (simp add: percent_encode_def)

lemma encode_byte_chars:
  "x \<in> set (encode_byte keep c) \<Longrightarrow> keep x \<or> x = CHR ''%'' \<or> (48 \<le> byte x \<and> byte x \<le> 57) \<or> (65 \<le> byte x \<and> byte x \<le> 70)"
proof -
  have "48 \<le> byte (hex_digit d) \<and> byte (hex_digit d) \<le> 57 \<or> 65 \<le> byte (hex_digit d) \<and> byte (hex_digit d) \<le> 70"
    if "d < 16" for d using that by (auto simp: hex_digit_byte)
  moreover have "byte c div 16 < 16" "byte c mod 16 < 16"
    using nat_of_char_less_256 [of c] by (simp_all add: less_mult_imp_div_less)
  ultimately
  have "48 \<le> byte (hex_digit (byte c div 16)) \<and> byte (hex_digit (byte c div 16)) \<le> 57 \<or>
        65 \<le> byte (hex_digit (byte c div 16)) \<and> byte (hex_digit (byte c div 16)) \<le> 70"
    "48 \<le> byte (hex_digit (byte c mod 16)) \<and> byte (hex_digit (byte c mod 16)) \<le> 57 \<or>
        65 \<le> byte (hex_digit (byte c mod 16)) \<and> byte (hex_digit (byte c mod 16)) \<le> 70"
    by auto
  moreover assume "x \<in> set (encode_byte keep c)"
  ultimately show ?thesis unfolding encode_byte_def by (cases "keep c") auto
qed

lemma percent_encode_no_query: "\<not> keep (CHR ''?'') \<Longrightarrow> CHR ''?'' \<notin> set (percent_encode keep s)"
  using encode_byte_chars [of "CHR ''?''" keep] by (auto simp: percent_encode_def)

lemma sanitize_path_eq:
  "sanitize_path raw =
     (let p = percent_decode (takeWhile ((\<noteq>) (CHR ''?'')) raw) in if sublist ''..'' p then ''/'' else p)"
  by (simp add: sanitize_path_def str_simps Let_def)

lemma sanitize_encoded:
  assumes "utf8_valid p" and "\<not> sublist ''..'' p" and "\<not> keep (CHR ''%'')" and "\<not> keep (CHR ''?'')"
    and "query_part = [] \<or> hd query_part = CHR ''?''"
  shows "sanitize_path (percent_encode keep p @ query_part) = p"
proof -
  have q: "CHR ''?'' \<notin> set (percent_encode keep p)"
    by (rule percent_encode_no_query) (rule assms(4))
  have d: "percent_decode (percent_encode keep p) = p"
    by (simp add: percent_decode_def percent_bytes_encode assms(3) from_utf8_lossy_id [OF assms(1)])
  have "takeWhile ((\<noteq>) (CHR ''?'')) (percent_encode keep p @ query_part) = percent_encode keep p"
    using assms(5) q by (cases query_part) (auto simp: takeWhile_append2 takeWhile_eq_all_conv)
  then show ?thesis using assms(2) by (simp add: sanitize_path_eq d)
qed

lemma percent_encode_kept: "\<forall>c \<in> set s. keep c \<Longrightarrow> percent_encode keep s = s"
  by (induction s) (simp_all add: percent_encode_def encode_byte_def)

text \<open>A path without escapes, question mark and double dot is left as it is.\<close>

lemma sanitize_path_id:
  assumes "utf8_valid p" and "\<not> sublist ''..'' p" and "CHR ''%'' \<notin> set p" and "CHR ''?'' \<notin> set p"
  shows "sanitize_path p = p"
proof -
  let ?keep = "\<lambda>c. c \<noteq> CHR ''%'' \<and> c \<noteq> CHR ''?''"
  have "percent_encode ?keep p = p" by (rule percent_encode_kept) (use assms(3,4) in auto)
  then show ?thesis using sanitize_encoded [OF assms(1,2), of ?keep "[]"] by simp
qed

text \<open>
  C36: Percent decoding inverts percent encoding: whatever set of bytes a client leaves
  unescaped (not the percent sign and not the question mark), the path it encoded is the path
  the server routes, with or without a query string, provided it is UTF-8 text without a
  double dot.
\<close>

theorem sanitize_path_encode:
  assumes "utf8_valid p" and "\<not> sublist ''..'' p" and "\<not> keep (CHR ''%'')" and "\<not> keep (CHR ''?'')"
    and "query_part = [] \<or> hd query_part = CHR ''?''"
  shows "sanitize_path (percent_encode keep p @ query_part) = p"
  using assms by (rule sanitize_encoded)

theorem sanitize_path_encode_witness:
  "sanitize_path (percent_encode (\<lambda>c. c = CHR ''/'') ''/a b%'' @ ''?x=1'') = ''/a b%''"
proof -
  have "utf8_valid ''/a b%''" "\<not> sublist ''..'' ''/a b%''" by code_simp+
  then show ?thesis by (intro sanitize_path_encode) simp_all
qed

text \<open>
  No request path the HTTP/1.x parser hands out can climb: whatever the request target
  was, however it was escaped, the sanitized path is valid UTF-8, holds no double dot and has
  no parent-directory component.
\<close>

lemma sanitize_path_safe:
  "utf8_valid (sanitize_path raw) \<and> \<not> sublist ''..'' (sanitize_path raw) \<and>
   ParentDir \<notin> set (components (sanitize_path raw))"
proof -
  have "utf8_valid ''/''" "\<not> sublist ''..'' ''/''" by code_simp+
  then have "utf8_valid (sanitize_path raw) \<and> \<not> sublist ''..'' (sanitize_path raw)"
    by (simp add: sanitize_path_eq Let_def percent_decode_def from_utf8_lossy_valid)
  then show ?thesis using parent_dir_double_dot by blast
qed

subsection \<open>The header block\<close>

definition headers_ok :: "hashmap \<Rightarrow> bool" where
  "headers_ok m = (hm_ok m \<and> (\<forall>(k, v) \<in> set m. LF \<notin> set k \<and> LF \<notin> set v))"

lemma ascii_lower_LF: "ascii_lower c = LF \<Longrightarrow> c = LF"
  by (auto simp: ascii_lower_def dest!: arg_cong [where f = byte] split: if_splits)

lemma to_lowercase_LF:
  assumes "std_ok std" and "LF \<notin> set s"
  shows "LF \<notin> set (to_lowercase (uni_lower std) s)"
proof (cases "ascii s")
  case True
  have "LF \<notin> ascii_lower ` set s" using assms(2) ascii_lower_LF by (metis imageE)
  with True show ?thesis by (simp add: to_lowercase_def)
next
  case False
  then show ?thesis using assms by (simp add: to_lowercase_def std_ok_def)
qed

lemma header_of_line_LF:
  assumes "std_ok std" and "LF \<notin> set (trim_end line)" and "header_of_line std line = Some (k, v)"
  shows "LF \<notin> set k \<and> LF \<notin> set v"
proof -
  obtain a b where ab: "split_once (CHR '':'') (trim_end line) = Some (a, b)"
      "k = to_lowercase (uni_lower std) (trim a)" "v = trim b"
    using assms(3) by (auto simp: header_of_line_def)
  then have "LF \<notin> set a" "LF \<notin> set b" using assms(2) by (auto simp: str_simps)
  then show ?thesis using ab set_trim to_lowercase_LF [OF assms(1)] by blast
qed

lemma headers_ok_insert:
  "headers_ok m \<Longrightarrow> LF \<notin> set k \<Longrightarrow> LF \<notin> set v \<Longrightarrow> headers_ok (hm_insert k v m)"
  using hm_insert_entries [of k v m] by (auto simp: headers_ok_def hm.invar_insert)

lemma read_headers_ok [keeps]:
  "std_ok std \<Longrightarrow> headers_ok m \<Longrightarrow> read_headers std s m = Ready (Inr (m', s')) \<Longrightarrow> headers_ok m'"
proof (induction std s m rule: read_headers.induct)
  case (1 std s m)
  from "1.prems"(3) obtain line t where rd: "read_line s = Ready (Inr (line, t))"
    by (subst (asm) read_headers.simps) (auto split: poll.splits sum.splits)
  show ?case
  proof (cases "line = [] \<or> trim line = []")
    case True
    then show ?thesis using "1.prems" rd by (subst (asm) read_headers.simps) simp
  next
    case False
    let ?m = "case header_of_line std line of None \<Rightarrow> m | Some (k, v) \<Rightarrow> hm_insert k v m"
    have "headers_ok ?m"
      using "1.prems"(1,2) header_of_line_LF [OF _ read_line_no_LF [OF rd]] headers_ok_insert
      by (auto split: option.splits)
    moreover have "read_headers std t ?m = Ready (Inr (m', s'))"
      using "1.prems"(3) rd False by (subst (asm) read_headers.simps) simp
    ultimately show ?thesis using "1.IH" rd False "1.prems"(1) by blast
  qed
qed

lemma parse_Some:
  assumes "parse std s = Ready (Inr (r, s'))"
  obtains line s1 where "read_line s = Ready (Inr (line, s1))"
    and "read_headers std s1 [] = Ready (Inr (req_headers r, s'))"
    and "req_path r = sanitize_path (nth_or 1 (split_whitespace (trim_end line)) ''/'')"
    and "req_method r = nth_or 0 (split_whitespace (trim_end line)) []"
  using assms by (auto simp: parse_def Let_def split: poll.splits sum.splits)

text \<open>
  C9: Every request \<open>parse\<close> returns is safe to route: its path is UTF-8 text free of double
  dots and parent-directory steps, its header map has one entry per name, and no header name
  or value contains a line feed, so no forwarded header can start a new header line (the path
  itself may hold line ends, see the injected header in \<open>Proxy_Relay\<close>).
\<close>

theorem parse_safe:
  assumes "std_ok std" and "parse std s = Ready (Inr (r, s'))"
  shows "\<not> sublist ''..'' (req_path r) \<and> ParentDir \<notin> set (components (req_path r)) \<and>
    utf8_valid (req_path r) \<and> headers_ok (req_headers r)"
proof -
  obtain line s1 where "read_headers std s1 [] = Ready (Inr (req_headers r, s'))"
    and path: "req_path r = sanitize_path (nth_or 1 (split_whitespace (trim_end line)) ''/'')"
    using parse_Some [OF assms(2)] by blast
  moreover have "headers_ok []" by (simp add: headers_ok_def hm_ok_def)
  ultimately show ?thesis using read_headers_ok [OF assms(1)] sanitize_path_safe by simp
qed

definition sample_head :: instream where
  "sample_head = \<lparr>avail = ''GET /%2e%2e/etc HTTP/1.1'' @ crlf @ ''Host: a'' @ crlf @ crlf @ ''rest'',
                  ending = Silent\<rparr>"

lemma parse_sample_head: "parse std_id sample_head = Ready (Inr (
    \<lparr>req_method = ''GET'', req_path = ''/'', req_version = ''HTTP/1.1'', req_headers = [(''host'', ''a'')]\<rparr>,
    \<lparr>avail = ''rest'', ending = Silent\<rparr>))"
  by code_simp

theorem parse_safe_witness:
  "\<not> sublist ''..'' ''/'' \<and> headers_ok [(''host'', ''a'')]"
  using parse_safe [OF std_id_ok parse_sample_head] by simp

subsection \<open>Completion\<close>

lemma read_headers_pending: "read_headers std s m = Pending \<Longrightarrow> ending s = Silent"
proof (induction std s m rule: read_headers.induct)
  case (1 std s m)
  show ?case
  proof (cases "read_line s")
    case Pending
    then show ?thesis by (simp add: read_line_pending)
  next
    case (Ready x)
    show ?thesis
    proof (cases x)
      case (Inl e)
      then show ?thesis using "1.prems" Ready by (subst (asm) read_headers.simps) simp
    next
      case (Inr lt)
      obtain line t where lt: "lt = (line, t)" by (cases lt)
      then have "\<not> (line = [] \<or> trim line = [])"
        using "1.prems" Ready Inr by (subst (asm) read_headers.simps) (auto split: if_splits)
      moreover from this have "read_headers std t
          (case header_of_line std line of None \<Rightarrow> m | Some (k, v) \<Rightarrow> hm_insert k v m) = Pending"
        using "1.prems" Ready Inr lt by (subst (asm) read_headers.simps) simp
      ultimately have "ending t = Silent" using "1.IH" Ready Inr lt by blast
      then show ?thesis using read_line_ending Ready Inr lt by metis
    qed
  qed
qed

lemma read_headers_total:
  "ending s = Eof \<Longrightarrow> utf8_valid (avail s) \<Longrightarrow> \<exists>m' s'. read_headers std s m = Ready (Inr (m', s'))"
proof (induction std s m rule: read_headers.induct)
  case (1 std s m)
  obtain line t where rd: "read_line s = Ready (Inr (line, t))" "ending t = Eof" "utf8_valid (avail t)"
    using read_line_valid "1.prems" by blast
  show ?case
  proof (cases "line = [] \<or> trim line = []")
    case True
    then show ?thesis by (subst read_headers.simps) (simp add: rd)
  next
    case False
    then show ?thesis using "1.IH" rd by (subst read_headers.simps) (simp add: rd)
  qed
qed

lemma parse_pending:
  assumes p: "parse std s = Pending"
  shows "ending s = Silent"
proof (cases "read_line s")
  case Pending
  then show ?thesis by (simp add: read_line_pending)
next
  case (Ready x)
  then obtain line t where "x = Inr (line, t)"
    using p by (cases x) (auto simp: parse_def)
  then show ?thesis
    using p Ready read_headers_pending read_line_ending
    by (fastforce simp: parse_def Let_def split: poll.splits sum.splits)
qed

text \<open>
  A whole head suffices, even if the connection stays open behind it: the parser stops at the
  first blank line after the request line.
\<close>

lemma blank_line_left:
  assumes "read_line s = Ready (Inr (line, t))" and "avail s = u @ LF # crlf @ r"
  shows "avail t = crlf @ r \<or> (\<exists>u'. avail t = u' @ LF # crlf @ r)"
proof (cases "LF \<in> set u")
  case True
  then obtain a b where u: "u = a @ LF # b" "LF \<notin> set a" by (meson split_list_first)
  then have "avail t = b @ LF # crlf @ r"
    using assms(1,2) cut_line_hit [of a "b @ LF # crlf @ r"] by (auto simp: read_line_def split: if_splits)
  then show ?thesis by blast
next
  case False
  then have "avail t = crlf @ r"
    using assms(1,2) cut_line_hit [of u "crlf @ r"] by (auto simp: read_line_def split: if_splits)
  then show ?thesis by blast
qed

lemma read_line_ready: "LF \<in> set (avail s) \<Longrightarrow> read_line s \<noteq> Pending"
proof -
  assume "LF \<in> set (avail s)"
  then obtain a b where "avail s = a @ LF # b" "LF \<notin> set a" by (meson split_list_first)
  then show ?thesis using cut_line_hit [of a b] by (simp add: read_line_pending)
qed

lemma read_headers_blank_line:
  "avail s = crlf @ r \<or> (\<exists>u. avail s = u @ LF # crlf @ r) \<Longrightarrow> read_headers std s m \<noteq> Pending"
proof (induction std s m rule: read_headers.induct)
  case (1 std s m)
  have ready: "read_line s \<noteq> Pending" using "1.prems" by (intro read_line_ready) auto
  show ?case
  proof (cases "\<exists>line t. read_line s = Ready (Inr (line, t)) \<and> \<not> (line = [] \<or> trim line = [])")
    case True
    then obtain line t where rd: "read_line s = Ready (Inr (line, t))" "\<not> (line = [] \<or> trim line = [])" by blast
    have "avail s \<noteq> crlf @ r"
    proof
      assume "avail s = crlf @ r"
      then have "line = crlf" using rd(1) cut_line_hit [of "[CR]" r] by (auto simp: read_line_def split: if_splits)
      moreover have "trim crlf = []" by code_simp
      ultimately show False using rd(2) by simp
    qed
    then obtain u where "avail s = u @ LF # crlf @ r" using "1.prems" by blast
    then have "avail t = crlf @ r \<or> (\<exists>u. avail t = u @ LF # crlf @ r)" using blank_line_left [OF rd(1)] by blast
    then show ?thesis using "1.IH" rd by (subst read_headers.simps) simp
  next
    case False
    then show ?thesis using ready by (subst read_headers.simps) (auto split: poll.split sum.split)
  qed
qed

lemma parse_whole_head:
  assumes "avail s = u @ LF # crlf @ r"
  shows "parse std s \<noteq> Pending"
proof (cases "\<exists>line t. read_line s = Ready (Inr (line, t))")
  case True
  then obtain line t where rd: "read_line s = Ready (Inr (line, t))" by blast
  then have "read_headers std t [] \<noteq> Pending"
    using blank_line_left [OF rd assms] read_headers_blank_line by blast
  then show ?thesis by (auto simp: parse_def rd Let_def split: poll.split sum.split)
next
  case False
  moreover have "read_line s \<noteq> Pending" using assms by (intro read_line_ready) simp
  ultimately show ?thesis by (auto simp: parse_def split: poll.split sum.split)
qed

text \<open>
  The parser always finishes unless the peer falls silent while keeping the connection
  open, and on a stream that ends it accepts every text: a head that is not HTTP at all is a
  request with default parts, never a parse error (the empty connection is an empty method on
  the path \<open>/\<close>).
\<close>

theorem parse_completes:
  "(parse std s = Pending \<longrightarrow> ending s = Silent) \<and>
   (ending s = Eof \<and> utf8_valid (avail s) \<longrightarrow> (\<exists>r s'. parse std s = Ready (Inr (r, s'))))"
proof (intro conjI impI)
  show "ending s = Silent" if "parse std s = Pending" using that by (rule parse_pending)
next
  assume e: "ending s = Eof \<and> utf8_valid (avail s)"
  obtain line t where rd: "read_line s = Ready (Inr (line, t))" "ending t = Eof" "utf8_valid (avail t)"
    using read_line_valid e by blast
  obtain m' s' where "read_headers std t [] = Ready (Inr (m', s'))"
    using read_headers_total rd by blast
  then show "\<exists>r s'. parse std s = Ready (Inr (r, s'))" by (simp add: parse_def rd Let_def)
qed

theorem parse_completes_witness:
  "\<exists>r s'. parse std_id \<lparr>avail = [], ending = Eof\<rparr> = Ready (Inr (r, s'))"
  using parse_completes [of std_id "\<lparr>avail = [], ending = Eof\<rparr>"] by simp

text \<open>
  Reading a request has no time limit: a peer that sends part of a line, or any number of
  complete header lines and no blank line, and then stays silent, keeps the connection task
  waiting for ever.
\<close>

theorem parse_waits_for_silent_peer:
  assumes "LF \<notin> set part"
  shows "parse std \<lparr>avail = part, ending = Silent\<rparr> = Pending"
  using cut_line_None [OF assms] by (simp add: parse_def read_line_def)

theorem parse_waits_for_silent_peer_witness:
  "parse std_id \<lparr>avail = ''GET / HT'', ending = Silent\<rparr> = Pending"
  by (rule parse_waits_for_silent_peer) simp

subsection \<open>A well-formed head is read back exactly\<close>

text \<open>The wire form of a request head, and the header fields it may carry.\<close>

definition header_line :: "string \<times> string \<Rightarrow> string" where
  "header_line = (\<lambda>(k, v). k @ '': '' @ v @ crlf)"

definition render_head :: "string \<Rightarrow> string \<Rightarrow> string \<Rightarrow> (string \<times> string) list \<Rightarrow> string" where
  "render_head meth target version hdrs =
     meth @ '' '' @ target @ '' '' @ version @ crlf @ concat (map header_line hdrs) @ crlf"

definition header_wf :: "string \<times> string \<Rightarrow> bool" where
  "header_wf = (\<lambda>(k, v). k \<noteq> [] \<and> tight k \<and> CHR '':'' \<notin> set k \<and> LF \<notin> set k \<and> utf8_valid k \<and>
     tight v \<and> LF \<notin> set v \<and> utf8_valid v)"

lemma read_line_crlf:
  "LF \<notin> set l \<Longrightarrow> utf8_valid l \<Longrightarrow>
   read_line \<lparr>avail = l @ crlf @ r, ending = e\<rparr> = Ready (Inr (l @ crlf, \<lparr>avail = r, ending = e\<rparr>))"
  using cut_line_hit [of "l @ [CR]" r] by (simp add: read_line_def utf8_valid_append)

lemma plain_colon: "plain (CHR '':'')"
  by (simp add: plain_def ws1_def)

lemma header_of_rendered_line:
  assumes "header_wf (k, v)"
  shows "header_of_line std (header_line (k, v)) = Some (to_lowercase (uni_lower std) k, v)"
proof -
  have wf: "tight k" "tight v" "CHR '':'' \<notin> set k" using assms by (auto simp: header_wf_def)
  have blank: "ws1 (CHR '' '')" by (simp add: ws1_def)
  have cut: "trim_end (header_line (k, v)) = trim_end (k @ '': '' @ v)"
    using trim_end_crlf [of "k @ '': '' @ v"] by (simp add: header_line_def)
  show ?thesis
  proof (cases "v = []")
    case True
    have "trim_end (k @ '': '') = k @ '':''"
      using trim_end_snoc_ws1 [OF blank, of "k @ '':''"] ws_back_plain [OF plain_colon, of "rev k"]
      by (simp add: trim_end_id)
    then show ?thesis
      using wf True cut by (simp add: header_of_line_def split_once_def trim_id)
  next
    case False
    have "ws_back (rev v @ CHR '' '' # '':'' @ rev k) = 0"
      using wf False by (intro ws_back_append_ascii) (simp_all add: tight_def)
    then have "trim_end (k @ '': '' @ v) = k @ '': '' @ v" by (intro trim_end_id) simp
    then show ?thesis
      using wf cut trim_cons_ws1 [OF blank, of v] by (simp add: header_of_line_def split_once_def trim_id)
  qed
qed

lemma read_headers_render:
  "list_all header_wf hdrs \<Longrightarrow>
   read_headers std \<lparr>avail = concat (map header_line hdrs) @ crlf @ rest, ending = e\<rparr> m =
     Ready (Inr (fold (\<lambda>(k, v). hm_insert (to_lowercase (uni_lower std) k) v) hdrs m,
                 \<lparr>avail = rest, ending = e\<rparr>))"
proof (induction hdrs arbitrary: m)
  case Nil
  have "trim crlf = []" by code_simp
  then show ?case using read_line_crlf [of "[]" rest e] by (subst read_headers.simps) simp
next
  case (Cons h hdrs)
  obtain k v where h: "h = (k, v)" by (cases h)
  let ?rest = "concat (map header_line hdrs) @ crlf @ rest"
  have wf: "header_wf (k, v)" using Cons.prems h by simp
  then have line: "LF \<notin> set (k @ '': '' @ v)" "utf8_valid (k @ '': '' @ v)"
    by (auto simp: header_wf_def utf8_valid_append)
  have rd: "read_line \<lparr>avail = header_line (k, v) @ ?rest, ending = e\<rparr> =
      Ready (Inr (header_line (k, v), \<lparr>avail = ?rest, ending = e\<rparr>))"
    using read_line_crlf [OF line] by (simp add: header_line_def)
  have "CHR '':'' \<in> set (header_line (k, v))" by (simp add: header_line_def)
  then have "trim (header_line (k, v)) \<noteq> []" by (rule trim_nonempty [OF plain_colon])
  moreover have "header_line (k, v) \<noteq> []" by (simp add: header_line_def)
  ultimately show ?case
    using Cons rd by (subst read_headers.simps) (simp add: h header_of_rendered_line [OF wf])
qed

lemma split_request_line:
  assumes "list_all plain meth" "meth \<noteq> []" "list_all plain target" "target \<noteq> []"
    and "list_all plain version" "version \<noteq> []"
  shows "split_whitespace (trim_end (meth @ '' '' @ target @ '' '' @ version @ crlf)) = [meth, target, version]"
proof -
  have blank: "ws1 (CHR '' '')" by (simp add: ws1_def)
  obtain vs c where v: "version = vs @ [c]" using assms(6) by (metis rev_exhaust)
  then have "plain c" using assms(5) by simp
  then have "trim_end (meth @ '' '' @ target @ '' '' @ version @ crlf) = meth @ '' '' @ target @ '' '' @ version"
    using trim_end_crlf [of "meth @ '' '' @ target @ '' '' @ version"]
    by (simp add: trim_end_id ws_back_plain v)
  then show ?thesis
    using assms by (simp add: split_whitespace_word [OF _ _ blank] split_whitespace_last)
qed

lemma plain_utf8: "list_all plain s \<Longrightarrow> utf8_valid s"
  by (rule utf8_valid_of_ascii) (auto simp: ascii_def plain_def list_all_iff)

lemma plain_no_LF: "list_all plain s \<Longrightarrow> LF \<notin> set s"
  by (auto simp: list_all_iff plain_def ws1_def)

lemma parse_rendered:
  assumes "list_all plain meth" "meth \<noteq> []" "list_all plain target" "target \<noteq> []"
    and "list_all plain version" "version \<noteq> []" and "list_all header_wf hdrs"
  shows "parse std \<lparr>avail = render_head meth target version hdrs @ rest, ending = e\<rparr> =
    Ready (Inr (\<lparr>req_method = meth, req_path = sanitize_path target, req_version = version,
                 req_headers = fold (\<lambda>(k, v). hm_insert (to_lowercase (uni_lower std) k) v) hdrs []\<rparr>,
                \<lparr>avail = rest, ending = e\<rparr>))"
proof -
  let ?l = "meth @ '' '' @ target @ '' '' @ version"
  have l: "LF \<notin> set ?l" "utf8_valid ?l"
    using assms plain_no_LF plain_utf8 by (auto simp: utf8_valid_append)
  have "read_line \<lparr>avail = render_head meth target version hdrs @ rest, ending = e\<rparr> =
      Ready (Inr (?l @ crlf, \<lparr>avail = concat (map header_line hdrs) @ crlf @ rest, ending = e\<rparr>))"
    using read_line_crlf [OF l] by (simp add: render_head_def)
  moreover have "split_whitespace (trim_end (?l @ crlf)) = [meth, target, version]"
    using split_request_line assms by simp
  ultimately show ?thesis
    by (simp only: parse_def poll.case sum.case prod.case Let_def read_headers_render [OF assms(7)])
      (simp add: nth_or_def)
qed

text \<open>
  C14: Parsing inverts rendering: a request head written with any method, target and version
  word and any list of header fields (no colon in a name, no line feed, no surrounding blanks)
  is read back as that request, with the target sanitized, the header names in lower case and
  the last of repeated fields kept, and the parser stops exactly at the body.
\<close>

theorem parse_render:
  assumes "list_all plain meth" "meth \<noteq> []" "list_all plain target" "target \<noteq> []"
    and "list_all plain version" "version \<noteq> []" and "list_all header_wf hdrs"
  shows "parse std \<lparr>avail = render_head meth target version hdrs @ rest, ending = e\<rparr> =
    Ready (Inr (\<lparr>req_method = meth, req_path = sanitize_path target, req_version = version,
                 req_headers = fold (\<lambda>(k, v). hm_insert (to_lowercase (uni_lower std) k) v) hdrs []\<rparr>,
                \<lparr>avail = rest, ending = e\<rparr>))"
  using assms by (rule parse_rendered)

theorem parse_render_witness:
  "parse std_id \<lparr>avail = render_head ''GET'' ''/a%20b'' ''HTTP/1.1'' [(''Host'', ''x:80''), (''HOST'', ''y'')] @ [],
                 ending = Silent\<rparr> =
   Ready (Inr (\<lparr>req_method = ''GET'', req_path = ''/a b'', req_version = ''HTTP/1.1'',
                req_headers = [(''host'', ''y'')]\<rparr>, \<lparr>avail = [], ending = Silent\<rparr>))"
proof -
  have "list_all plain ''GET'' \<and> list_all plain ''/a%20b'' \<and> list_all plain ''HTTP/1.1''" by code_simp
  moreover have "list_all header_wf [(''Host'', ''x:80''), (''HOST'', ''y'')]" by code_simp
  moreover have "sanitize_path ''/a%20b'' = ''/a b''" by code_simp
  moreover have "fold (\<lambda>(k, v). hm_insert (to_lowercase (uni_lower std_id) k) v)
      [(''Host'', ''x:80''), (''HOST'', ''y'')] [] = [(''host'', ''y'')]" by code_simp
  ultimately show ?thesis
    using parse_render [of "''GET''" "''/a%20b''" "''HTTP/1.1''"
      "[(''Host'', ''x:80''), (''HOST'', ''y'')]" std_id "[]" Silent] by simp
qed

end
