(* ===== verification/Response.thy ===== *)
theory Response
  imports Rust_Io
begin

section \<open>Responses and their wire form (src/http/response.rs)\<close>

text \<open>
  The \<open>Response\<close> struct, its constructors, the built-in error page and \<open>send\<close>, which writes
  the head and the body to an output stream that may break, or stop taking bytes, at any point.
\<close>

record response =
  status_code :: u16
  status_text :: string
  content_type :: string
  body :: bytes
  resp_server_name :: string

definition new :: "u16 \<Rightarrow> string \<Rightarrow> string \<Rightarrow> response" where
  "new code text sname = \<lparr>status_code = code, status_text = text, content_type = ''text/plain'',
     body = [], resp_server_name = sname\<rparr>"

definition set_html_body :: "string \<Rightarrow> response \<Rightarrow> response" where
  "set_html_body html r = r\<lparr>content_type := ''text/html; charset=utf-8'', body := html\<rparr>"

definition set_body :: "bytes \<Rightarrow> string \<Rightarrow> response \<Rightarrow> response" where
  "set_body bs ctype r = r\<lparr>content_type := ctype, body := bs\<rparr>"

definition page :: "u16 \<Rightarrow> string \<Rightarrow> string \<Rightarrow> string" where
  \<open>page code text sname =
     ''<!DOCTYPE html>'' @ [LF] @ ''<html>'' @ [LF] @
     ''<head><title>'' @ show_word code @ '' '' @ text @ ''</title></head>'' @ [LF] @
     ''<body style="font-family:'Geist',ui-sans-serif,-apple-system,'Segoe UI',sans-serif;'' @
     ''background:#F7F8F9;color:#1A1A1A;text-align:center;margin:0;padding-top:12%;">'' @ [LF] @
     ''<h1 style="font-size:2.2rem;">'' @ show_word code @ '' <span style="color:#0066FF;">'' @ text @
     ''</span></h1>'' @ [LF] @
     ''<hr style="border-color:#FF7A1A;width:120px;border-width:2px 0 0;">'' @ [LF] @
     ''<p style="color:#6B7280;">'' @ sname @ ''</p>'' @ [LF] @
     ''<p style="color:#9CA3AF;font-size:0.85em;"><a href="https://github.com/NethumWelikada" style="color:#9CA3AF;">Nethum Welikada</a> &middot; Master of Engineering in Internetworking<br>Dalhousie University &middot; Halifax, Nova Scotia, Canada</p>'' @ [LF] @
     ''</body>'' @ [LF] @ ''</html>'' @ [LF]\<close>

definition ok :: "string \<Rightarrow> response" where
  "ok sname = new 200 ''OK'' sname"

definition not_found :: "string \<Rightarrow> response" where
  "not_found sname = set_html_body (page 404 ''Not Found'' sname) (new 404 ''Not Found'' sname)"

definition forbidden :: "string \<Rightarrow> response" where
  "forbidden sname = set_html_body (page 403 ''Forbidden'' sname) (new 403 ''Forbidden'' sname)"

definition internal_error :: "string \<Rightarrow> response" where
  "internal_error sname =
     set_html_body (page 500 ''Internal Server Error'' sname) (new 500 ''Internal Server Error'' sname)"

definition bad_gateway :: "string \<Rightarrow> response" where
  "bad_gateway sname = set_html_body (page 502 ''Bad Gateway'' sname) (new 502 ''Bad Gateway'' sname)"

definition service_unavailable :: "string \<Rightarrow> response" where
  "service_unavailable sname =
     set_html_body (page 503 ''Service Unavailable'' sname) (new 503 ''Service Unavailable'' sname)"

definition response_head :: "response \<Rightarrow> string" where
  "response_head r =
     ''HTTP/1.1 '' @ show_word (status_code r) @ '' '' @ status_text r @ crlf @
     ''Server: '' @ resp_server_name r @ crlf @
     ''Content-Type: '' @ content_type r @ crlf @
     ''Content-Length: '' @ show_nat (length (body r)) @ crlf @
     ''Connection: close'' @ crlf @
     crlf"

definition send :: "response \<Rightarrow> sink \<Rightarrow> unit poll \<times> sink" where
  "send r stream =
     (case write_all (response_head r) stream of
        (Ready (Inr _), stream) \<Rightarrow>
          (case write_all (body r) stream of
             (Ready (Inr _), stream) \<Rightarrow> flush stream
           | (failed, stream) \<Rightarrow> (failed, stream))
      | (failed, stream) \<Rightarrow> (failed, stream))"

lemmas response_defs = new_def set_html_body_def set_body_def ok_def not_found_def forbidden_def
  internal_error_def bad_gateway_def service_unavailable_def

subsection \<open>The wire form\<close>

definition wire :: "response \<Rightarrow> bytes" where
  "wire r = response_head r @ body r"

definition head_lines :: "response \<Rightarrow> string list" where
  "head_lines r = [''HTTP/1.1 '' @ show_word (status_code r) @ '' '' @ status_text r,
     ''Server: '' @ resp_server_name r, ''Content-Type: '' @ content_type r,
     ''Content-Length: '' @ show_nat (length (body r)), ''Connection: close'']"

text \<open>The three texts of a response that are not fixed by the code: none has a line feed.\<close>

definition response_ok :: "response \<Rightarrow> bool" where
  "response_ok r = (LF \<notin> set (status_text r) \<and> LF \<notin> set (resp_server_name r) \<and> LF \<notin> set (content_type r))"

lemma response_head_lines: "response_head r = concat (map (\<lambda>l. l @ crlf) (head_lines r)) @ crlf"
  by (simp add: response_head_def head_lines_def)

lemma find_window_line:
  "LF \<notin> set l \<Longrightarrow> find_window (l @ CR # LF # s) (crlf @ crlf) =
     map_option ((+) (length l)) (find_window (CR # LF # s) (crlf @ crlf))"
proof (induction l)
  case Nil
  show ?case by (simp add: option.map_ident del: find_window.simps)
next
  case (Cons c l)
  have "\<not> prefix (crlf @ crlf) ((c # l) @ CR # LF # s)"
    using Cons.prems by (cases l) auto
  then have "find_window ((c # l) @ CR # LF # s) (crlf @ crlf) =
      map_option Suc (find_window (l @ CR # LF # s) (crlf @ crlf))"
    by (simp only: append_Cons append_Nil find_window.simps if_False)
  then show ?case
    using Cons by (simp add: option.map_comp comp_def del: find_window.simps)
qed

lemma find_window_next_line:
  "s \<noteq> [] \<Longrightarrow> hd s \<noteq> CR \<Longrightarrow> find_window (CR # LF # s) (crlf @ crlf) =
     map_option ((+) 2) (find_window s (crlf @ crlf))"
  by (cases s) (simp_all add: option.map_comp comp_def)

lemma find_window_block:
  assumes "\<forall>l \<in> set ls. LF \<notin> set l \<and> l \<noteq> [] \<and> hd l \<noteq> CR" and "ls \<noteq> []"
  shows "find_window (concat (map (\<lambda>l. l @ crlf) ls) @ crlf @ b) (crlf @ crlf) =
     Some (length (concat (map (\<lambda>l. l @ crlf) ls)) - 2)"
  using assms
proof (induction ls)
  case (Cons l ls)
  let ?s = "concat (map (\<lambda>l. l @ crlf) ls) @ crlf @ b"
  have line: "find_window (l @ CR # LF # ?s) (crlf @ crlf) =
      map_option ((+) (length l)) (find_window (CR # LF # ?s) (crlf @ crlf))"
    using Cons.prems by (intro find_window_line) simp
  show ?case
  proof (cases ls)
    case Nil
    then show ?thesis using line by simp
  next
    case ls: (Cons l' ls')
    have "find_window (CR # LF # ?s) (crlf @ crlf) = map_option ((+) 2) (find_window ?s (crlf @ crlf))"
      using Cons.prems ls by (intro find_window_next_line) auto
    then show ?thesis using Cons ls line by (simp del: find_window.simps)
  qed
qed simp

lemma head_lines_ok: "response_ok r \<Longrightarrow> l \<in> set (head_lines r) \<Longrightarrow> LF \<notin> set l \<and> l \<noteq> [] \<and> hd l \<noteq> CR"
  by (auto simp: response_ok_def head_lines_def show_nat_not_in)

lemma lines_block:
  "\<forall>l \<in> set ls. LF \<notin> set l \<Longrightarrow> lines (concat (map (\<lambda>l. l @ crlf) ls) @ s) = ls @ lines s"
  by (induction ls) (simp_all add: lines_crlf [simplified])

lemma wire_split:
  assumes "response_ok r"
  shows "find_window (wire r) (crlf @ crlf) = Some (length (response_head r) - 4) \<and>
     drop (length (response_head r)) (wire r) = body r \<and>
     lines (response_head r) = head_lines r @ [[]]"
proof (intro conjI)
  have ls: "\<forall>l \<in> set (head_lines r). LF \<notin> set l \<and> l \<noteq> [] \<and> hd l \<noteq> CR"
    using head_lines_ok [OF assms] by blast
  have "head_lines r \<noteq> []" by (simp add: head_lines_def)
  from find_window_block [OF ls this, of "body r"]
  show "find_window (wire r) (crlf @ crlf) = Some (length (response_head r) - 4)"
    by (simp add: wire_def response_head_lines)
  show "drop (length (response_head r)) (wire r) = body r" by (simp add: wire_def)
  have "lines crlf = [[]]" by code_simp
  then show "lines (response_head r) = head_lines r @ [[]]"
    using lines_block [of "head_lines r" crlf] ls by (simp add: response_head_lines)
qed

text \<open>
  C16: Framing: on the wire a response whose status text, server name and content type have no
  line feed is its head lines, a blank line and the body. The first
  blank line of the byte stream is the one that ends the head, whatever the body holds, and
  the head declares exactly the length of the bytes that follow it.
\<close>

theorem wire_framing:
  assumes "response_ok r"
  shows "find_window (wire r) (crlf @ crlf) = Some (length (response_head r) - 4) \<and>
     drop (length (response_head r)) (wire r) = body r \<and>
     lines (response_head r) = head_lines r @ [[]]"
  using assms by (rule wire_split)

theorem wire_framing_witness:
  "find_window (wire (set_body (crlf @ crlf) ''text/css'' (ok ''N''))) (crlf @ crlf) =
     Some (length (response_head (set_body (crlf @ crlf) ''text/css'' (ok ''N''))) - 4)"
  using wire_framing [of "set_body (crlf @ crlf) ''text/css'' (ok ''N'')"]
  by (simp add: response_defs response_ok_def)

text \<open>
  \<open>send\<close> delivers a prefix of the wire form and never anything else: all of it and the
  result of the final flush if the connection takes that many bytes, and otherwise exactly the
  bytes the connection took, with the write error or, if the peer stopped reading, never an end.
\<close>

theorem send_spec:
  "(room s = None \<or> (\<exists>n. room s = Some n \<and> length (wire r) \<le> n) \<longrightarrow>
      written (snd (send r s)) = written s @ wire r \<and> fst (send r s) = flush_result s) \<and>
   (\<forall>n. room s = Some n \<and> n < length (wire r) \<longrightarrow>
      fst (send r s) = (if stalls s then Pending else Ready (Inl (write_err s))) \<and>
      written (snd (send r s)) = written s @ take n (wire r))"
  by (auto simp: send_def wire_def write_all_def flush_def split: option.splits)

definition open_sink :: sink where
  "open_sink = \<lparr>written = [], room = None, stalls = False,
     write_err = io_err (OtherKind ''BrokenPipe'') ''Broken pipe (os error 32)'', flush_result = Ready (Inr ())\<rparr>"

theorem send_spec_witness:
  "written (snd (send (ok ''N'') open_sink)) = wire (ok ''N'') \<and>
   fst (send (ok ''N'') (open_sink\<lparr>room := Some 3\<rparr>)) = Ready (Inl (write_err open_sink)) \<and>
   fst (send (ok ''N'') (open_sink\<lparr>room := Some 3, stalls := True\<rparr>)) = Pending"
  using send_spec [of open_sink "ok ''N''"] send_spec [of "open_sink\<lparr>room := Some 3\<rparr>" "ok ''N''"]
    send_spec [of "open_sink\<lparr>room := Some 3, stalls := True\<rparr>" "ok ''N''"]
  by (simp add: open_sink_def wire_def response_head_def)

lemma send_unbroken:
  "room s = None \<Longrightarrow> send r s = (flush_result s, s\<lparr>written := written s @ wire r\<rparr>)"
  by (simp add: send_def wire_def flush_def)

lemma send_append: "prefix (written s) (written (snd (send r s)))"
  by (auto simp: send_def write_all_def flush_def split: option.splits poll.splits sum.splits)

end
