(* ===== verification/Router.thy ===== *)
theory Router
  imports Config Request Response
begin

section \<open>Static files (src/http/router.rs)\<close>

text \<open>
  \<open>route\<close> resolves a request to a file under the document root. It makes up to four calls to
  the file system, and other processes may change files between them: \<open>fs i\<close> is the file
  system as the \<open>i\<close>-th call sees it (0 \<open>metadata\<close>, 1 and 2 the two calls of
  \<open>canonicalize\<close>, 3 \<open>read\<close>).
\<close>

definition mime_for :: "string \<Rightarrow> string" where
  "mime_for path =
     (let e = (case extension path of None \<Rightarrow> [] | Some e \<Rightarrow> e) in
      if e = ''html'' \<or> e = ''htm'' then ''text/html; charset=utf-8''
      else if e = ''css'' then ''text/css''
      else if e = ''js'' then ''application/javascript''
      else if e = ''json'' then ''application/json''
      else if e = ''png'' then ''image/png''
      else if e = ''jpg'' \<or> e = ''jpeg'' then ''image/jpeg''
      else if e = ''gif'' then ''image/gif''
      else if e = ''svg'' then ''image/svg+xml''
      else if e = ''ico'' then ''image/x-icon''
      else if e = ''txt'' then ''text/plain; charset=utf-8''
      else if e = ''xml'' then ''application/xml''
      else if e = ''pdf'' then ''application/pdf''
      else if e = ''woff'' then ''font/woff''
      else if e = ''woff2'' then ''font/woff2''
      else ''application/octet-stream'')"

definition path_is_within :: "filesystem \<Rightarrow> filesystem \<Rightarrow> string \<Rightarrow> string \<Rightarrow> bool" where
  "path_is_within fs1 fs2 target root =
     (let root_abs = (case fs_canonicalize fs1 root of None \<Rightarrow> root | Some r \<Rightarrow> r) in
      case fs_canonicalize fs2 target of
        Some target_abs \<Rightarrow> path_starts_with target_abs root_abs
      | None \<Rightarrow> path_starts_with target root)"

definition rel_path_of :: "request \<Rightarrow> config \<Rightarrow> string" where
  "rel_path_of req cfg =
     (let rel = trim_start_char (CHR ''/'') (req_path req) in if rel = [] then index_file cfg else rel)"

definition full_path :: "filesystem \<Rightarrow> request \<Rightarrow> config \<Rightarrow> string" where
  "full_path fs0 req cfg =
     (let full = path_join (document_root cfg) (rel_path_of req cfg) in
      if fs_is_dir fs0 full = Some True then path_join full (index_file cfg) else full)"

definition route :: "(nat \<Rightarrow> filesystem) \<Rightarrow> request \<Rightarrow> config \<Rightarrow> response" where
  "route fs req cfg =
     (if req_method req \<noteq> ''GET'' \<and> req_method req \<noteq> ''HEAD'' then
        set_html_body ''<h1>405 Method Not Allowed</h1>'' (new 405 ''Method Not Allowed'' (server_name cfg))
      else
        (let full = full_path (fs 0) req cfg in
         if \<not> path_is_within (fs 1) (fs 2) full (document_root cfg) then forbidden (server_name cfg)
         else case fs_read (fs 3) full of
                Some bytes \<Rightarrow> set_body bytes (mime_for full) (ok (server_name cfg))
              | None \<Rightarrow> not_found (server_name cfg)))"

subsection \<open>The response\<close>

lemma mime_for_no_LF: "LF \<notin> set (mime_for p)"
  by (simp add: mime_for_def Let_def)

lemma route_response_ok:
  "LF \<notin> set (server_name cfg) \<Longrightarrow> response_ok (route fs req cfg)"
  by (auto simp: route_def response_ok_def response_defs Let_def mime_for_no_LF split: option.splits)

lemma route_status_cases:
  "let full = full_path (fs 0) req cfg; r = route fs req cfg;
       allowed = (req_method req = ''GET'' \<or> req_method req = ''HEAD'');
       inside = path_is_within (fs 1) (fs 2) full (document_root cfg)
   in (status_code r = 405 \<longleftrightarrow> \<not> allowed) \<and>
      (status_code r = 403 \<longleftrightarrow> allowed \<and> \<not> inside) \<and>
      (status_code r = 404 \<longleftrightarrow> allowed \<and> inside \<and> fs_read (fs 3) full = None) \<and>
      (status_code r = 200 \<longleftrightarrow> allowed \<and> inside \<and> fs_read (fs 3) full \<noteq> None) \<and>
      (status_code r = 200 \<longrightarrow> fs_read (fs 3) full = Some (body r) \<and> content_type r = mime_for full)"
  by (auto simp: route_def response_defs Let_def split: option.splits)

text \<open>
  The status of a static response says exactly what happened: 405 for a method other than
  GET and HEAD, 403 for a resolved path outside the document root, 404 for a file that cannot
  be read, and otherwise 200 with the bytes read and the type of the resolved path.
\<close>

theorem route_status:
  "let full = full_path (fs 0) req cfg; r = route fs req cfg;
       allowed = (req_method req = ''GET'' \<or> req_method req = ''HEAD'');
       inside = path_is_within (fs 1) (fs 2) full (document_root cfg)
   in (status_code r = 405 \<longleftrightarrow> \<not> allowed) \<and>
      (status_code r = 403 \<longleftrightarrow> allowed \<and> \<not> inside) \<and>
      (status_code r = 404 \<longleftrightarrow> allowed \<and> inside \<and> fs_read (fs 3) full = None) \<and>
      (status_code r = 200 \<longleftrightarrow> allowed \<and> inside \<and> fs_read (fs 3) full \<noteq> None) \<and>
      (status_code r = 200 \<longrightarrow> fs_read (fs 3) full = Some (body r) \<and> content_type r = mime_for full)"
  by (rule route_status_cases)

subsection \<open>Confinement to the document root\<close>

text \<open>
  What is assumed of a file system at rest: a file that can be read has a canonical path
  (\<open>canonicalize\<close> fails only for paths that do not resolve).
\<close>

definition fs_sound :: "filesystem \<Rightarrow> bool" where
  "fs_sound F = (\<forall>p. fs_read F p \<noteq> None \<longrightarrow> fs_canonicalize F p \<noteq> None)"

lemma route_stays_inside:
  assumes "fs_sound F" and "status_code (route (\<lambda>_. F) req cfg) = 200"
  shows "\<exists>target c. fs_read F target = Some (body (route (\<lambda>_. F) req cfg)) \<and>
     fs_canonicalize F target = Some c \<and>
     path_starts_with c (case fs_canonicalize F (document_root cfg) of None \<Rightarrow> document_root cfg | Some r \<Rightarrow> r)"
proof -
  let ?full = "full_path F req cfg"
  have "fs_read F ?full = Some (body (route (\<lambda>_. F) req cfg))"
    and inside: "path_is_within F F ?full (document_root cfg)"
    using route_status_cases [of "\<lambda>_. F" req cfg] assms(2) by (auto simp: Let_def)
  moreover obtain c where "fs_canonicalize F ?full = Some c"
    using assms(1) calculation(1) by (auto simp: fs_sound_def)
  ultimately show ?thesis by (auto simp: path_is_within_def Let_def)
qed

text \<open>
  C17: Directory traversal: for any request whatsoever (also one whose path was never
  sanitized, as over HTTP/2 and HTTP/3), if the files do not change while the request is
  served, a 200 response carries the contents of a file whose canonical path, with symbolic
  links resolved, lies under the canonical document root.
\<close>

theorem route_confined:
  assumes "fs_sound F" and "status_code (route (\<lambda>_. F) req cfg) = 200"
  shows "\<exists>target c. fs_read F target = Some (body (route (\<lambda>_. F) req cfg)) \<and>
     fs_canonicalize F target = Some c \<and>
     path_starts_with c (case fs_canonicalize F (document_root cfg) of None \<Rightarrow> document_root cfg | Some r \<Rightarrow> r)"
  using assms by (rule route_stays_inside)

text \<open>A small site: \<open>/srv/www/index.html\<close> and a secret beside the document root.\<close>

definition sample_fs :: filesystem where
  "sample_fs = \<lparr>
     fs_is_dir = (\<lambda>p. if p \<in> {''/srv/www'', ''/srv/www/''} then Some True
        else if p \<in> {''/srv/www/index.html'', ''/srv/secret'', ''/srv/www/../secret''} then Some False else None),
     fs_canonicalize = (\<lambda>p. if p \<in> {''/srv/www'', ''/srv/www/''} then Some ''/srv/www''
        else if p = ''/srv/www/index.html'' then Some p
        else if p \<in> {''/srv/secret'', ''/srv/www/../secret''} then Some ''/srv/secret'' else None),
     fs_read = (\<lambda>p. if p = ''/srv/www/index.html'' then Some ''<h1>hi</h1>''
        else if p \<in> {''/srv/secret'', ''/srv/www/../secret''} then Some ''key'' else None)\<rparr>"

definition sample_cfg :: config where
  "sample_cfg = default_config\<lparr>document_root := ''/srv/www''\<rparr>"

definition get_request :: "string \<Rightarrow> request" where
  "get_request p = \<lparr>req_method = ''GET'', req_path = p, req_version = ''HTTP/1.1'', req_headers = []\<rparr>"

lemma sample_fs_sound: "fs_sound sample_fs"
  by (simp add: fs_sound_def sample_fs_def)

lemma sample_index: "status_code (route (\<lambda>_. sample_fs) (get_request ''/'') sample_cfg) = 200"
  by code_simp

theorem route_confined_witness:
  "\<exists>target c. fs_read sample_fs target = Some (body (route (\<lambda>_. sample_fs) (get_request ''/'') sample_cfg)) \<and>
     fs_canonicalize sample_fs target = Some c \<and> path_starts_with c ''/srv/www''"
  using route_confined [OF sample_fs_sound sample_index] by (simp add: sample_fs_def sample_cfg_def)

text \<open>The site after an attacker has replaced the page by a link to the secret.\<close>

definition swapped_fs :: filesystem where
  "swapped_fs = sample_fs\<lparr>
     fs_canonicalize := (\<lambda>p. if p = ''/srv/www/index.html'' then Some ''/srv/secret'' else fs_canonicalize sample_fs p),
     fs_read := (\<lambda>p. if p = ''/srv/www/index.html'' then Some ''key'' else fs_read sample_fs p)\<rparr>"

text \<open>
  The check and the read are two calls: if the file is replaced by a symbolic link between
  them, the response carries a file outside the root although every single state of the file
  system is sound and the check passed.
\<close>

theorem route_check_then_read_race:
  "\<exists>fs. (\<forall>i. fs_sound (fs i)) \<and> status_code (route fs (get_request ''/'') sample_cfg) = 200 \<and>
     body (route fs (get_request ''/'') sample_cfg) = ''key'' \<and>
     fs_canonicalize (fs 3) (full_path (fs 0) (get_request ''/'') sample_cfg) = Some ''/srv/secret'' \<and>
     \<not> path_starts_with ''/srv/secret'' ''/srv/www''"
proof (intro exI conjI)
  let ?fs = "\<lambda>i::nat. if i < 3 then sample_fs else swapped_fs"
  show "\<forall>i. fs_sound (?fs i)"
    using sample_fs_sound by (auto simp: fs_sound_def swapped_fs_def)
  show "status_code (route ?fs (get_request ''/'') sample_cfg) = 200" by code_simp
  show "body (route ?fs (get_request ''/'') sample_cfg) = ''key''" by code_simp
  show "fs_canonicalize (?fs 3) (full_path (?fs 0) (get_request ''/'') sample_cfg) = Some ''/srv/secret''"
    by code_simp
  show "\<not> path_starts_with ''/srv/secret'' ''/srv/www''" by code_simp
qed

subsection \<open>The lexical defence\<close>

lemma rel_components_no_parent: "\<not> sublist ''..'' p \<Longrightarrow> ParentDir \<notin> set (rel_components p)"
  using parent_dir_double_dot [of p] by (auto simp: components_def)

lemma sublist_trim_start_char: "sublist (trim_start_char c p) p"
  by (simp add: trim_start_char_def suffix_dropWhile suffix_imp_sublist)

lemma rel_path_of_safe:
  assumes "\<not> sublist ''..'' (req_path req)" and "\<not> is_absolute (index_file cfg)"
    and "\<not> sublist ''..'' (index_file cfg)"
  shows "\<not> is_absolute (rel_path_of req cfg) \<and> \<not> sublist ''..'' (rel_path_of req cfg)"
proof -
  have "\<not> sublist ''..'' (trim_start_char (CHR ''/'') (req_path req))"
    using assms(1) sublist_trim_start_char sublist_order.order_trans by blast
  then show ?thesis
    using assms trim_start_slash_relative by (auto simp: rel_path_of_def Let_def)
qed

text \<open>
  For a sanitized path and a relative index file without double dots, the path handed to
  the file system extends the document root by components none of which is a step to the
  parent: it is under the document root before any symbolic link is looked at.
\<close>

theorem full_path_lexically_inside:
  assumes "\<not> sublist ''..'' (req_path req)" and "\<not> is_absolute (index_file cfg)"
    and "\<not> sublist ''..'' (index_file cfg)" and "document_root cfg \<noteq> []"
  shows "\<exists>tail. components (full_path F req cfg) = components (document_root cfg) @ tail \<and>
     ParentDir \<notin> set tail"
proof -
  let ?rel = "rel_path_of req cfg"
  let ?full = "path_join (document_root cfg) ?rel"
  have rel: "\<not> is_absolute ?rel" "\<not> sublist ''..'' ?rel"
    using rel_path_of_safe assms by blast+
  have full: "components ?full = components (document_root cfg) @ rel_components ?rel"
    by (rule components_join [OF rel(1) assms(4)])
  have "?full \<noteq> []" using assms(4) rel(1) by (simp add: path_join_def)
  then have "components (path_join ?full (index_file cfg)) =
      components (document_root cfg) @ rel_components ?rel @ rel_components (index_file cfg)"
    using components_join [OF assms(2)] full by simp
  then show ?thesis
    using full rel_components_no_parent rel(2) assms(3) by (auto simp: full_path_def Let_def)
qed

theorem full_path_lexically_inside_witness:
  "\<exists>tail. components (full_path sample_fs (get_request (sanitize_path ''//%2e./x'')) sample_cfg) =
     components ''/srv/www'' @ tail \<and> ParentDir \<notin> set tail"
proof -
  have "\<not> is_absolute ''index.html''" "\<not> sublist ''..'' ''index.html''" by code_simp+
  moreover have "\<not> sublist ''..'' (req_path (get_request (sanitize_path ''//%2e./x'')))"
    using sanitize_path_safe by (simp add: get_request_def)
  ultimately show ?thesis
    using full_path_lexically_inside [of "get_request (sanitize_path ''//%2e./x'')" sample_cfg sample_fs]
    by (simp add: sample_cfg_def default_config_def)
qed

text \<open>
  A HEAD request gets the very response a GET request gets, body included.
\<close>

theorem head_carries_body:
  "route fs (req\<lparr>req_method := ''HEAD''\<rparr>) cfg = route fs (req\<lparr>req_method := ''GET''\<rparr>) cfg"
  by (simp add: route_def full_path_def rel_path_of_def)

end
