(* ===== verification/Proxy.thy ===== *)
theory Proxy
  imports Config Request Response
begin

section \<open>The proxy table: routes, load balancing, health (src/proxy/mod.rs)\<close>

text \<open>
  Upstream targets with their health flag, routes with their round-robin counter, the table
  built from the configuration, longest-prefix matching, \<open>pick_upstream\<close> and the health
  checker. The atomics are fields of the records: one call of \<open>pick_upstream\<close> that nothing
  interrupts is a function on the route; interleaved calls are in \<open>Proxy_Concurrency\<close>.
\<close>

record upstream_target =
  addr :: string
  healthy :: bool

record proxy_route =
  route_prefix :: string
  targets :: "upstream_target list"
  counter :: usize

record proxy_table =
  pt_routes :: "proxy_route list"

subsection \<open>The table\<close>

definition proxy_from_config :: "config \<Rightarrow> proxy_table" where
  "proxy_from_config cfg = \<lparr>pt_routes =
     map (\<lambda>(pre, upstreams). \<lparr>route_prefix = pre,
            targets = map (\<lambda>a. \<lparr>addr = a, healthy = True\<rparr>) upstreams, counter = 0\<rparr>)
         (proxy_routes cfg)\<rparr>"

definition proxy_match_route :: "proxy_table \<Rightarrow> string \<Rightarrow> proxy_route option" where
  "proxy_match_route t path =
     max_by_key (\<lambda>r. length (route_prefix r)) (filter (\<lambda>r. prefix (route_prefix r) path) (pt_routes t))"

definition has_routes :: "proxy_table \<Rightarrow> bool" where
  "has_routes t = (pt_routes t \<noteq> [])"

text \<open>
  The code matches by reference: the route it gets is the one in the table, and its atomics
  are updated in place. \<open>proxy_match_entry\<close> also gives the position of that route.
\<close>

definition proxy_match_entry :: "proxy_table \<Rightarrow> string \<Rightarrow> (nat \<times> proxy_route) option" where
  "proxy_match_entry t path =
     max_by_key (\<lambda>(i, r). length (route_prefix r))
       (filter (\<lambda>(i, r). prefix (route_prefix r) path) (enumerate 0 (pt_routes t)))"

definition set_route :: "nat \<Rightarrow> proxy_route \<Rightarrow> proxy_table \<Rightarrow> proxy_table" where
  "set_route i r t = t\<lparr>pt_routes := (pt_routes t)[i := r]\<rparr>"

lemma proxy_match_route_fun: "proxy_match_route t =
   (\<lambda>p. max_by_key (\<lambda>r. length (route_prefix r)) (filter (\<lambda>r. prefix (route_prefix r) p) (pt_routes t)))"
  by (simp add: fun_eq_iff proxy_match_route_def)

lemmas proxy_match_facts = longest_match_facts [OF proxy_match_route_fun]

interpretation proxy: prefix_table pt_routes route_prefix proxy_match_route
  by unfold_locales (rule proxy_match_facts, assumption+)+

lemma proxy_match_entry_route: "proxy_match_route t path = map_option snd (proxy_match_entry t path)"
proof -
  let ?E = "enumerate 0 (pt_routes t)"
  have "filter (\<lambda>r. prefix (route_prefix r) path) (pt_routes t) =
      filter (\<lambda>r. prefix (route_prefix r) path) (map snd ?E)" by simp
  also have "\<dots> = map snd (filter (\<lambda>(i, r). prefix (route_prefix r) path) ?E)"
    by (simp only: filter_map comp_def case_prod_unfold)
  finally show ?thesis
    by (simp only: proxy_match_route_def proxy_match_entry_def max_by_key_map comp_def case_prod_unfold)
qed

lemma proxy_match_entry_nth:
  assumes "proxy_match_entry t path = Some (i, r)"
  shows "i < length (pt_routes t) \<and> pt_routes t ! i = r"
  using max_by_key_in [OF assms [unfolded proxy_match_entry_def]]
  by (auto simp: in_set_enumerate_eq)

subsection \<open>Round robin\<close>

text \<open>The loop of \<open>pick_upstream\<close>; the first argument counts the iterations that are left.\<close>

fun pick_loop :: "nat \<Rightarrow> proxy_route \<Rightarrow> string option \<times> proxy_route" where
  "pick_loop 0 r = (None, r)"
| "pick_loop (Suc k) r =
     (let idx = unat (counter r) mod length (targets r);
          r' = r\<lparr>counter := counter r + 1\<rparr>;
          target = targets r ! idx
      in if healthy target then (Some (addr target), r') else pick_loop k r')"

definition pick_upstream :: "proxy_route \<Rightarrow> string option \<times> proxy_route" where
  "pick_upstream r =
     (let n = length (targets r) in if n = 0 then (None, r) else pick_loop n r)"

subsection \<open>Health checks\<close>

text \<open>
  The outcome of a TCP connection attempt, with the nanoseconds it takes; \<open>timeout\<close> polls
  the attempt before the clock, so an attempt that ends when the time is up still counts.
\<close>

datatype connect_outcome = Connects nat | Refuses nat io_error | Hangs

definition tcp_connect_ok :: "(string \<Rightarrow> connect_outcome) \<Rightarrow> string \<Rightarrow> u64 \<Rightarrow> bool" where
  "tcp_connect_ok net a timeout =
     (case net a of Connects t \<Rightarrow> t \<le> unat timeout * 1000000000 | Refuses _ _ \<Rightarrow> False | Hangs \<Rightarrow> False)"

definition strip_scheme :: "string \<Rightarrow> string" where
  "strip_scheme upstream = trim_start_str ''http://'' (trim_start_str ''https://'' upstream)"

text \<open>One round of the health checker's loop, the probes answered by \<open>net\<close>.\<close>

definition check_target :: "(string \<Rightarrow> connect_outcome) \<Rightarrow> u64 \<Rightarrow> upstream_target \<Rightarrow> upstream_target" where
  "check_target net timeout t = t\<lparr>healthy := tcp_connect_ok net (strip_scheme (addr t)) timeout\<rparr>"

definition check_route :: "(string \<Rightarrow> connect_outcome) \<Rightarrow> u64 \<Rightarrow> proxy_route \<Rightarrow> proxy_route" where
  "check_route net timeout r = r\<lparr>targets := map (check_target net timeout) (targets r)\<rparr>"

definition health_round :: "(string \<Rightarrow> connect_outcome) \<Rightarrow> u64 \<Rightarrow> proxy_table \<Rightarrow> proxy_table" where
  "health_round net timeout t = t\<lparr>pt_routes := map (check_route net timeout) (pt_routes t)\<rparr>"

subsection \<open>Facts about picking\<close>

lemma pick_loop_keeps [keeps]:
  "targets (snd (pick_loop k r)) = targets r" "route_prefix (snd (pick_loop k r)) = route_prefix r"
  by (induction k r rule: pick_loop.induct) (simp_all add: Let_def)

lemma pick_upstream_keeps [keeps]:
  "targets (snd (pick_upstream r)) = targets r" "route_prefix (snd (pick_upstream r)) = route_prefix r"
  by (simp_all add: pick_upstream_def Let_def pick_loop_keeps)

lemma pick_loop_Some:
  "fst (pick_loop k r) = Some a \<Longrightarrow> targets r \<noteq> [] \<Longrightarrow> \<exists>t \<in> set (targets r). healthy t \<and> addr t = a"
proof (induction k r rule: pick_loop.induct)
  case (2 k r)
  have "targets r ! (unat (counter r) mod length (targets r)) \<in> set (targets r)"
    using "2.prems"(2) by simp
  then show ?case using 2 by (auto simp: Let_def split: if_splits)
qed simp

lemma pick_loop_None:
  assumes "fst (pick_loop k r) = None" and "i < k"
  shows "\<not> healthy (targets r ! (unat (counter r + of_nat i) mod length (targets r)))"
  using assms
proof (induction k r arbitrary: i rule: pick_loop.induct)
  case (2 k r)
  let ?r' = "r\<lparr>counter := counter r + 1\<rparr>"
  have first: "\<not> healthy (targets r ! (unat (counter r) mod length (targets r)))"
    and rest: "fst (pick_loop k ?r') = None"
    using "2.prems"(1) by (auto simp: Let_def split: if_splits)
  show ?case
  proof (cases i)
    case 0
    then show ?thesis using first by simp
  next
    case (Suc j)
    then have "\<not> healthy (targets ?r' ! (unat (counter ?r' + of_nat j) mod length (targets ?r')))"
      using "2.IH" [OF refl refl refl _ rest, of j] first "2.prems"(2) by simp
    then show ?thesis using Suc by (simp add: add.assoc)
  qed
qed simp

text \<open>A pick is the first healthy target of the lap that starts at the counter.\<close>

lemma pick_loop_first:
  assumes "fst (pick_loop k r) = Some a"
  shows "\<exists>i < k. let idx = (\<lambda>j. unat (counter r + of_nat j) mod length (targets r)) in
     healthy (targets r ! idx i) \<and> addr (targets r ! idx i) = a \<and>
     (\<forall>j < i. \<not> healthy (targets r ! idx j)) \<and> counter (snd (pick_loop k r)) = counter r + of_nat i + 1"
  using assms
proof (induction k r rule: pick_loop.induct)
  case (2 k r)
  let ?r' = "r\<lparr>counter := counter r + 1\<rparr>"
  let ?idx = "\<lambda>j. unat (counter r + of_nat j) mod length (targets r)"
  show ?case
  proof (cases "healthy (targets r ! ?idx 0)")
    case True
    then show ?thesis using "2.prems" by (intro exI [of _ 0]) (simp add: Let_def)
  next
    case False
    then have pick: "pick_loop (Suc k) r = pick_loop k ?r'" by (simp add: Let_def)
    then obtain i where i: "i < k" "healthy (targets r ! ?idx (Suc i))" "addr (targets r ! ?idx (Suc i)) = a"
      "\<forall>j < i. \<not> healthy (targets r ! ?idx (Suc j))" "counter (snd (pick_loop k ?r')) = counter r + of_nat (Suc i) + 1"
      using "2.IH" [OF refl refl refl] "2.prems" False by (auto simp: Let_def add.assoc add.left_commute)
    moreover have "\<forall>j < Suc i. \<not> healthy (targets r ! ?idx j)"
      using i(4) False less_Suc_eq_0_disj by auto
    ultimately show ?thesis unfolding pick Let_def by (intro exI [of _ "Suc i"]) auto
  qed
qed simp

text \<open>Without wrap-around a lap of the counter meets every index of the target list.\<close>

definition no_wrap :: "proxy_route \<Rightarrow> nat \<Rightarrow> bool" where
  "no_wrap r m = (unat (counter r) + m \<le> 2 ^ 64)"

lemma unat_add_no_wrap: "unat (c :: usize) + m \<le> 2 ^ 64 \<Longrightarrow> i < m \<Longrightarrow> unat (c + of_nat i) = unat c + i"
  by (simp add: unat_word_ariths unat_of_nat)

lemma lap_covers:
  fixes j n c :: nat
  assumes "j < n"
  shows "\<exists>i < n. (c + i) mod n = j"
proof -
  let ?i = "(j + (n - c mod n)) mod n"
  have "c mod n \<le> n" using assms by (intro less_imp_le mod_less_divisor) simp
  then have lap: "c mod n + (j + (n - c mod n)) = j + n" by simp
  have "(c + ?i) mod n = (c mod n + (j + (n - c mod n))) mod n"
    by (simp only: mod_add_right_eq mod_add_left_eq)
  then have "(c + ?i) mod n = j" using assms by (simp only: lap) simp
  then show ?thesis using assms by (intro exI [of _ ?i]) auto
qed

lemma pick_upstream_cases:
  "(\<forall>a. fst (pick_upstream r) = Some a \<longrightarrow> (\<exists>t \<in> set (targets r). healthy t \<and> addr t = a)) \<and>
   ((\<forall>t \<in> set (targets r). \<not> healthy t) \<longrightarrow> fst (pick_upstream r) = None) \<and>
   (no_wrap r (length (targets r)) \<longrightarrow>
      (fst (pick_upstream r) = None \<longleftrightarrow> (\<forall>t \<in> set (targets r). \<not> healthy t))) \<and>
   (\<exists>c. snd (pick_upstream r) = r\<lparr>counter := c\<rparr>)"
proof -
  have some: "\<exists>t \<in> set (targets r). healthy t \<and> addr t = a" if "fst (pick_upstream r) = Some a" for a
    using that pick_loop_Some by (auto simp: pick_upstream_def Let_def split: if_splits)
  have none: "\<not> healthy t" if wrap: "no_wrap r (length (targets r))"
    and pick: "fst (pick_upstream r) = None" and t: "t \<in> set (targets r)" for t
  proof -
    let ?n = "length (targets r)"
    obtain j where j: "j < ?n" "targets r ! j = t" using t by (auto simp: in_set_conv_nth)
    obtain i where i: "i < ?n" "(unat (counter r) + i) mod ?n = j" using lap_covers j by blast
    have "fst (pick_loop ?n r) = None"
      using pick t by (auto simp: pick_upstream_def Let_def split: if_splits)
    from pick_loop_None [OF this i(1)] show ?thesis
      using i j wrap by (simp add: unat_add_no_wrap [of _ ?n] no_wrap_def)
  qed
  have "\<exists>c. snd (pick_upstream r) = r\<lparr>counter := c\<rparr>"
    using pick_upstream_keeps [of r] by (intro exI [of _ "counter (snd (pick_upstream r))"]) simp
  moreover have "fst (pick_upstream r) = None" if "\<forall>t \<in> set (targets r). \<not> healthy t"
    using that some by (cases "fst (pick_upstream r)") auto
  ultimately show ?thesis using some none by blast
qed

lemma pick_upstream_first:
  "fst (pick_upstream r) = Some a \<Longrightarrow>
   (\<exists>i < length (targets r). let idx = (\<lambda>j. unat (counter r + of_nat j) mod length (targets r)) in
      healthy (targets r ! idx i) \<and> addr (targets r ! idx i) = a \<and>
      (\<forall>j < i. \<not> healthy (targets r ! idx j)) \<and> counter (snd (pick_upstream r)) = counter r + of_nat i + 1)"
  using pick_loop_first [of "length (targets r)" r a] by (auto simp: pick_upstream_def Let_def split: if_splits)

text \<open>
  C5: Load balancing is sound and complete: an upstream that is picked is a target of the
  route that is marked healthy, namely the first healthy one of the lap that starts at the
  counter, which then stands behind it; the pick changes nothing but the counter; there is no
  pick if no target is healthy and, as long as the counter does not wrap within the lap, only
  then.
\<close>

theorem pick_upstream_spec:
  "(\<forall>a. fst (pick_upstream r) = Some a \<longrightarrow> (\<exists>t \<in> set (targets r). healthy t \<and> addr t = a) \<and>
      (\<exists>i < length (targets r). let idx = (\<lambda>j. unat (counter r + of_nat j) mod length (targets r)) in
         healthy (targets r ! idx i) \<and> addr (targets r ! idx i) = a \<and>
         (\<forall>j < i. \<not> healthy (targets r ! idx j)) \<and> counter (snd (pick_upstream r)) = counter r + of_nat i + 1)) \<and>
   ((\<forall>t \<in> set (targets r). \<not> healthy t) \<longrightarrow> fst (pick_upstream r) = None) \<and>
   (no_wrap r (length (targets r)) \<longrightarrow>
      (fst (pick_upstream r) = None \<longleftrightarrow> (\<forall>t \<in> set (targets r). \<not> healthy t))) \<and>
   (\<exists>c. snd (pick_upstream r) = r\<lparr>counter := c\<rparr>)"
  using pick_upstream_cases [of r] pick_upstream_first [of r] by blast

definition sample_route :: proxy_route where
  "sample_route = \<lparr>route_prefix = ''/api'',
     targets = [\<lparr>addr = ''http://a:1'', healthy = False\<rparr>, \<lparr>addr = ''http://b:2'', healthy = True\<rparr>],
     counter = 7\<rparr>"

theorem pick_upstream_spec_witness:
  "fst (pick_upstream sample_route) \<noteq> None"
  using pick_upstream_spec [of sample_route] by (simp add: sample_route_def no_wrap_def)

definition wrap_route :: proxy_route where
  "wrap_route = \<lparr>route_prefix = ''/api'',
     targets = [\<lparr>addr = ''a'', healthy = False\<rparr>, \<lparr>addr = ''b'', healthy = False\<rparr>,
                \<lparr>addr = ''c'', healthy = True\<rparr>],
     counter = 18446744073709551615\<rparr>"

text \<open>
  The counter is a machine word: when it wraps in the middle of a lap and the number of
  targets does not divide \<open>2 ^ 64\<close>, the lap can miss a target, and a route with a healthy
  target answers that it has none.
\<close>

theorem pick_upstream_wraps:
  "fst (pick_upstream wrap_route) = None \<and> (\<exists>t \<in> set (targets wrap_route). healthy t)"
proof -
  have n: "length (targets wrap_route) = 3" by (simp add: wrap_route_def)
  have t: "targets wrap_route ! 0 = \<lparr>addr = ''a'', healthy = False\<rparr>"
      "targets wrap_route ! Suc 0 = \<lparr>addr = ''b'', healthy = False\<rparr>"
    by (simp_all add: wrap_route_def)
  have w: "wrap_route = wrap_route\<lparr>counter := 18446744073709551615\<rparr>" by (simp add: wrap_route_def)
  have zero: "(18446744073709551616 :: usize) = 0"
    using word_exp_length_eq_0 [where 'a = 64] by simp
  have third: "fst (pick_loop (Suc 0) (wrap_route\<lparr>counter := 1\<rparr>)) = None"
    by (simp add: n t Let_def)
  have second: "fst (pick_loop (Suc (Suc 0)) (wrap_route\<lparr>counter := 0\<rparr>)) = None"
    using third by (simp add: n t Let_def del: pick_loop.simps(2) add: pick_loop.simps(2) [of "Suc 0"])
  have "fst (pick_loop (Suc (Suc (Suc 0))) (wrap_route\<lparr>counter := 18446744073709551615\<rparr>)) = None"
    using second by (simp add: n t zero Let_def del: pick_loop.simps(2) add: pick_loop.simps(2) [of "Suc (Suc 0)"])
  then have "fst (pick_upstream wrap_route) = None"
    using n w by (simp add: pick_upstream_def numeral_3_eq_3 Let_def del: pick_loop.simps)
  then show ?thesis by (simp add: wrap_route_def)
qed

subsection \<open>Fairness\<close>

text \<open>A run of consecutive picks.\<close>

fun picks :: "nat \<Rightarrow> proxy_route \<Rightarrow> string option list \<times> proxy_route" where
  "picks 0 r = ([], r)"
| "picks (Suc m) r = (let (a, r') = pick_upstream r; (as, r'') = picks m r' in (a # as, r''))"

lemma pick_upstream_all_healthy:
  assumes "\<forall>t \<in> set (targets r). healthy t" and "targets r \<noteq> []"
  shows "pick_upstream r = (Some (addr (targets r ! (unat (counter r) mod length (targets r)))),
     r\<lparr>counter := counter r + 1\<rparr>)"
proof -
  obtain k where k: "length (targets r) = Suc k" using assms(2) by (cases "targets r") auto
  have "targets r ! (unat (counter r) mod length (targets r)) \<in> set (targets r)"
    using assms(2) by simp
  then show ?thesis using assms k by (simp add: pick_upstream_def Let_def)
qed

lemma picks_all_healthy:
  assumes "\<forall>t \<in> set (targets r). healthy t" and "targets r \<noteq> []" and "no_wrap r m"
  shows "fst (picks m r) =
     map (\<lambda>i. Some (addr (targets r ! ((unat (counter r) + i) mod length (targets r))))) [0..<m]"
  using assms
proof (induction m arbitrary: r)
  case (Suc m)
  let ?r' = "r\<lparr>counter := counter r + 1\<rparr>"
  show ?case
  proof (cases m)
    case 0
    then show ?thesis using pick_upstream_all_healthy [OF Suc.prems(1,2)] by simp
  next
    case (Suc k)
    have c: "unat (counter r + 1) = unat (counter r) + 1"
      using unat_add_no_wrap [of "counter r" "Suc m" 1] Suc.prems(3) Suc by (simp add: no_wrap_def)
    then have "no_wrap ?r' m" using Suc.prems(3) by (simp add: no_wrap_def)
    then have "fst (picks m ?r') =
        map (\<lambda>i. Some (addr (targets r ! ((unat (counter r) + 1 + i) mod length (targets r))))) [0..<m]"
      using Suc.IH [of ?r'] Suc.prems c by simp
    then show ?thesis
      using pick_upstream_all_healthy [OF Suc.prems(1,2)]
      by (simp add: Let_def case_prod_beta upt_conv_Cons map_Suc_upt [symmetric] comp_def del: upt_Suc)
  qed
qed simp

lemma lap_permutation: "mset (map (\<lambda>i. (c + i) mod n) [0..<n]) = mset [0..<n]"
proof (cases "n = 0")
  case False
  have sub: "{0..<n} \<subseteq> (\<lambda>i. (c + i) mod n) ` {0..<n}"
    using lap_covers [of _ n c] by (force simp: image_iff)
  have eq: "(\<lambda>i. (c + i) mod n) ` {0..<n} = {0..<n}"
    using sub False by auto
  then have "inj_on (\<lambda>i. (c + i) mod n) {0..<n}"
    by (intro eq_card_imp_inj_on) simp_all
  then have "distinct (map (\<lambda>i. (c + i) mod n) [0..<n])" by (simp add: distinct_map)
  then show ?thesis using eq by (intro set_eq_iff_mset_eq_distinct [THEN iffD1]) simp_all
qed simp

text \<open>
  C29: Round robin is fair: with every target healthy, any \<open>n\<close> consecutive picks on a route
  with \<open>n\<close> targets pick every target exactly once, wherever the counter stands, as long as it does not wrap
  around during these picks.
\<close>

theorem round_robin_fair:
  assumes "\<forall>t \<in> set (targets r). healthy t" and "targets r \<noteq> []" and "no_wrap r (length (targets r))"
  shows "mset (fst (picks (length (targets r)) r)) = mset (map (\<lambda>t. Some (addr t)) (targets r))"
proof -
  let ?n = "length (targets r)" and ?a = "\<lambda>j. Some (addr (targets r ! j))"
  have "fst (picks ?n r) = map ?a (map (\<lambda>i. (unat (counter r) + i) mod ?n) [0..<?n])"
    using picks_all_healthy [OF assms] by (simp add: comp_def)
  then have "mset (fst (picks ?n r)) = mset (map ?a [0..<?n])"
    using lap_permutation [of "unat (counter r)" ?n] by (metis mset_map)
  also have "map ?a [0..<?n] = map (\<lambda>t. Some (addr t)) (targets r)"
    by (rule nth_equalityI) simp_all
  finally show ?thesis .
qed

definition fair_route :: proxy_route where
  "fair_route = sample_route\<lparr>targets := map (\<lambda>t. t\<lparr>healthy := True\<rparr>) (targets sample_route)\<rparr>"

theorem round_robin_fair_witness:
  "mset (fst (picks (length (targets fair_route)) fair_route)) = {#Some ''http://b:2'', Some ''http://a:1''#}"
proof -
  have "\<forall>t \<in> set (targets fair_route). healthy t" "targets fair_route \<noteq> []"
    "no_wrap fair_route (length (targets fair_route))"
    by (simp_all add: fair_route_def sample_route_def no_wrap_def)
  from round_robin_fair [OF this] show ?thesis
    by (simp add: fair_route_def sample_route_def del: picks.simps)
qed

subsection \<open>Failover\<close>

lemma strip_scheme_no_scheme: "\<not> prefix ''http://'' (strip_scheme u)"
  unfolding strip_scheme_def by (rule trim_start_str_no_prefix) simp

text \<open>
  C28: Failover: right after a health-check round an upstream that is picked is one that
  accepted a connection within the timeout, there is no pick if no target of the route
  accepted one and, as long as the counter does not wrap within the lap, only then.
\<close>

theorem health_failover:
  "(\<forall>a. fst (pick_upstream (check_route net timeout r)) = Some a \<longrightarrow>
      a \<in> addr ` set (targets r) \<and> tcp_connect_ok net (strip_scheme a) timeout) \<and>
   ((\<forall>t \<in> set (targets r). \<not> tcp_connect_ok net (strip_scheme (addr t)) timeout) \<longrightarrow>
      fst (pick_upstream (check_route net timeout r)) = None) \<and>
   (no_wrap r (length (targets r)) \<longrightarrow>
      (fst (pick_upstream (check_route net timeout r)) = None \<longleftrightarrow>
         (\<forall>t \<in> set (targets r). \<not> tcp_connect_ok net (strip_scheme (addr t)) timeout)))"
proof -
  have "no_wrap (check_route net timeout r) (length (targets (check_route net timeout r))) =
      no_wrap r (length (targets r))"
    by (simp add: check_route_def no_wrap_def)
  then show ?thesis using pick_upstream_cases [of "check_route net timeout r"]
    by (auto simp: check_route_def check_target_def)
qed

theorem health_failover_witness:
  "fst (pick_upstream (check_route (\<lambda>a. if a = ''a:1'' then Connects 1 else Hangs) 2 sample_route)) \<noteq> None"
proof -
  have "strip_scheme ''http://a:1'' = ''a:1''" by code_simp
  then show ?thesis
    using health_failover [of "\<lambda>a. if a = ''a:1'' then Connects 1 else Hangs" 2 sample_route]
    by (simp add: sample_route_def no_wrap_def tcp_connect_ok_def)
qed

text \<open>
  A health-check round sets every flag of the table from its own probe and touches nothing
  else: addresses, prefixes, their order and the round-robin counters stay.
\<close>

theorem health_round_spec:
  "map route_prefix (pt_routes (health_round net timeout t)) = map route_prefix (pt_routes t) \<and>
   map counter (pt_routes (health_round net timeout t)) = map counter (pt_routes t) \<and>
   map (map addr \<circ> targets) (pt_routes (health_round net timeout t)) = map (map addr \<circ> targets) (pt_routes t) \<and>
   (\<forall>r \<in> set (pt_routes (health_round net timeout t)). \<forall>u \<in> set (targets r).
      healthy u \<longleftrightarrow> tcp_connect_ok net (strip_scheme (addr u)) timeout)"
  by (auto simp: health_round_def check_route_def check_target_def comp_def)

theorem health_round_spec_witness:
  "\<forall>r \<in> set (pt_routes (health_round (\<lambda>_. Hangs) 2 \<lparr>pt_routes = [sample_route]\<rparr>)). \<forall>u \<in> set (targets r).
     healthy u \<longleftrightarrow> tcp_connect_ok (\<lambda>_. Hangs) (strip_scheme (addr u)) 2"
  using health_round_spec [of "\<lambda>_. Hangs" 2 "\<lparr>pt_routes = [sample_route]\<rparr>"] by blast

subsection \<open>Matching\<close>

text \<open>
  C30: Longest-prefix matching: the route that serves a path is in the table, its prefix starts
  the path, every other route whose prefix starts the path has a prefix at most as long, and
  a path falls through to the next handler only if no prefix starts it.
\<close>

theorem proxy_match_longest:
  "(case proxy_match_route t path of
      Some r \<Rightarrow> r \<in> set (pt_routes t) \<and> prefix (route_prefix r) path \<and>
        (\<forall>r' \<in> set (pt_routes t). prefix (route_prefix r') path \<longrightarrow>
           length (route_prefix r') \<le> length (route_prefix r))
    | None \<Rightarrow> \<forall>r \<in> set (pt_routes t). \<not> prefix (route_prefix r) path)"
  using proxy.lookup_in proxy.lookup_prefix proxy.lookup_longest proxy.lookup_None_iff
  by (auto split: option.split)

theorem proxy_match_longest_witness:
  "prefix (route_prefix (the (proxy_match_route \<lparr>pt_routes = [sample_route]\<rparr> ''/apix''))) ''/apix''"
proof -
  have "proxy_match_route \<lparr>pt_routes = [sample_route]\<rparr> ''/apix'' = Some sample_route"
    by (simp add: proxy_match_route_def sample_route_def)
  then show ?thesis using proxy_match_longest [of "\<lparr>pt_routes = [sample_route]\<rparr>" "''/apix''"] by simp
qed

lemma proxy_from_config_set:
  "set (pt_routes (proxy_from_config cfg)) =
     (\<lambda>(pre, ups). \<lparr>route_prefix = pre, targets = map (\<lambda>a. \<lparr>addr = a, healthy = True\<rparr>) ups, counter = 0\<rparr>)
       ` set (proxy_routes cfg)"
  by (simp add: proxy_from_config_def)

text \<open>
  C31: Routing does not depend on the random order of the hash map: two loads of the same file,
  whatever orders they iterate in, route every path to the same prefix and the same list of
  upstreams, provided no prefix is configured twice.
\<close>

theorem proxy_routing_deterministic:
  assumes "std_ok s1" and "std_ok s2" and "utf8_valid contents"
    and "inj_on fst (set (proxy_routes (fst (load s1 path (Contents contents)))))"
  shows "proxy_match_route (proxy_from_config (fst (load s1 path (Contents contents)))) p =
    proxy_match_route (proxy_from_config (fst (load s2 path (Contents contents)))) p"
proof (rule proxy.lookup_determined)
  have same: "set (proxy_routes (fst (load s1 path (Contents contents)))) =
      set (proxy_routes (fst (load s2 path (Contents contents))))"
    using load_routes_set [OF assms(1,3)] load_routes_set [OF assms(2,3)] by simp
  then show "set (pt_routes (proxy_from_config (fst (load s1 path (Contents contents))))) =
      set (pt_routes (proxy_from_config (fst (load s2 path (Contents contents)))))"
    by (simp add: proxy_from_config_set)
  show "inj_on route_prefix (set (pt_routes (proxy_from_config (fst (load s1 path (Contents contents))))))"
    using assms(4) unfolding proxy_from_config_set inj_on_def by fastforce
qed

theorem proxy_routing_deterministic_witness:
  "proxy_match_route (proxy_from_config (fst (load std_id ''f'' (Contents sample_conf)))) ''/api/x'' =
   proxy_match_route (proxy_from_config (fst (load std_rev ''f'' (Contents sample_conf)))) ''/api/x''"
proof -
  have "proxy_routes (fst (load std_id ''f'' (Contents sample_conf))) =
      [(''/api'', [''http://127.0.0.1:5001'', ''http://127.0.0.1:5002''])]"
    by (rule sample_conf_routes)
  then show ?thesis
    by (intro proxy_routing_deterministic [OF std_id_ok std_rev_ok sample_conf_utf8]) simp
qed

definition double_conf :: string where
  "double_conf = ''proxy_route /a = http://x:1'' @ [LF] @ ''proxy_route  /a = http://y:2'' @ [LF]"

text \<open>
  A prefix written twice with different spacing is two keys of the hash map and two routes
  with the same prefix, and the map's iteration order decides which upstream serves it.
\<close>

theorem duplicate_prefix_order:
  "map_option (map addr \<circ> targets) (proxy_match_route
      (proxy_from_config (fst (load std_id ''f'' (Contents double_conf)))) ''/a'') = Some [''http://y:2''] \<and>
   map_option (map addr \<circ> targets) (proxy_match_route
      (proxy_from_config (fst (load std_rev ''f'' (Contents double_conf)))) ''/a'') = Some [''http://x:1'']"
  by code_simp

end
