(* ===== verification/Proxy_Relay.thy ===== *)
theory Proxy_Relay
  imports Proxy
begin

section \<open>Talking to an upstream (src/proxy/mod.rs)\<close>

text \<open>
  \<open>fetch_from_upstream\<close>, \<open>relay\<close>, \<open>relay_raw\<close>, \<open>split_raw_response\<close> and
  \<open>extract_status\<close>. The network is the three results the code waits for: dialling and writing
  the request, which have no time limit and may stay pending for ever, and reading the reply
  to the end, which has ten seconds.
\<close>

datatype reply = Replied bytes | ReplyError io_error | ReplyTooLate

record network =
  dial :: "string \<Rightarrow> unit poll"
  upstream_write :: "string \<Rightarrow> bytes \<Rightarrow> unit poll"
  upstream_reply :: "string \<Rightarrow> bytes \<Rightarrow> reply"

subsection \<open>The forwarded request\<close>

definition skip_header :: "string \<Rightarrow> bool" where
  "skip_header k = (eq_ignore_ascii_case k ''host'' \<or> eq_ignore_ascii_case k ''connection'')"

definition request_text :: "std_params \<Rightarrow> request \<Rightarrow> string \<Rightarrow> string \<Rightarrow> string" where
  "request_text std req upstream_addr peer =
     req_method req @ '' '' @ req_path req @ '' HTTP/1.1'' @ crlf @
     ''Host: '' @ upstream_addr @ crlf @
     ''X-Forwarded-For: '' @ peer @ crlf @
     ''Connection: close'' @ crlf @
     concat (map (\<lambda>(k, v). if skip_header k then [] else k @ '': '' @ v @ crlf)
       (hash_order std (req_headers req))) @
     crlf"

definition no_healthy_upstream :: io_error where
  "no_healthy_upstream = io_err NotConnected ''no healthy upstream available''"

definition fetch_from_upstream ::
    "std_params \<Rightarrow> network \<Rightarrow> request \<Rightarrow> proxy_route \<Rightarrow> string \<Rightarrow> bytes poll \<times> proxy_route" where
  "fetch_from_upstream std net req route peer =
     (case pick_upstream route of
        (None, route) \<Rightarrow> (Ready (Inl no_healthy_upstream), route)
      | (Some target, route) \<Rightarrow>
          (let upstream_addr = strip_scheme target in
           case dial net upstream_addr of
             Pending \<Rightarrow> (Pending, route)
           | Ready (Inl e) \<Rightarrow> (Ready (Inl e), route)
           | Ready (Inr _) \<Rightarrow>
               (let text = request_text std req upstream_addr peer in
                case upstream_write net upstream_addr text of
                  Pending \<Rightarrow> (Pending, route)
                | Ready (Inl e) \<Rightarrow> (Ready (Inl e), route)
                | Ready (Inr _) \<Rightarrow>
                    (case upstream_reply net upstream_addr text of
                       ReplyTooLate \<Rightarrow> (Ready (Inl (io_err TimedOut ''deadline has elapsed'')), route)
                     | ReplyError e \<Rightarrow> (Ready (Inl e), route)
                     | Replied bs \<Rightarrow> (Ready (Inr bs), route)))))"

text \<open>A network on which dialling and writing come to an end.\<close>

definition net_answers :: "network \<Rightarrow> bool" where
  "net_answers net = (\<forall>a text. dial net a \<noteq> Pending \<and> upstream_write net a text \<noteq> Pending)"

subsection \<open>The upstream's reply\<close>

definition extract_status :: "bytes \<Rightarrow> u16" where
  "extract_status resp =
     (case lines (from_utf8_lossy resp) of
        [] \<Rightarrow> 502
      | line # _ \<Rightarrow>
          (let ws = split_whitespace line in
           if length ws \<le> 1 then 502
           else case parse_uint (ws ! 1) of Some code \<Rightarrow> code | None \<Rightarrow> 502))"

definition split_raw_response :: "bytes \<Rightarrow> u16 \<times> bytes" where
  "split_raw_response raw =
     (extract_status raw,
      case find_window raw (crlf @ crlf) of
        Some pos \<Rightarrow> drop (pos + 4) raw
      | None \<Rightarrow> [])"

definition relay_raw ::
    "std_params \<Rightarrow> network \<Rightarrow> request \<Rightarrow> proxy_route \<Rightarrow> string \<Rightarrow> bytes poll \<times> proxy_route" where
  "relay_raw std net req route peer = fetch_from_upstream std net req route peer"

definition relay ::
    "std_params \<Rightarrow> network \<Rightarrow> request \<Rightarrow> proxy_route \<Rightarrow> sink \<Rightarrow> string \<Rightarrow> u16 poll \<times> proxy_route \<times> sink" where
  "relay std net req route client peer =
     (case fetch_from_upstream std net req route peer of
        (Pending, route) \<Rightarrow> (Pending, route, client)
      | (Ready (Inl e), route) \<Rightarrow> (Ready (Inl e), route, client)
      | (Ready (Inr response_bytes), route) \<Rightarrow>
          (let status = extract_status response_bytes in
           case write_all response_bytes client of
             (Pending, client) \<Rightarrow> (Pending, route, client)
           | (Ready (Inl e), client) \<Rightarrow> (Ready (Inl e), route, client)
           | (Ready (Inr _), client) \<Rightarrow>
               (case flush client of
                  (Pending, client) \<Rightarrow> (Pending, route, client)
                | (Ready (Inl e), client) \<Rightarrow> (Ready (Inl e), route, client)
                | (Ready (Inr _), client) \<Rightarrow> (Ready (Inr status), route, client))))"

lemma fetch_keeps [keeps]:
  "targets (snd (fetch_from_upstream std net req route peer)) = targets route"
  "route_prefix (snd (fetch_from_upstream std net req route peer)) = route_prefix route"
  using pick_upstream_keeps [of route]
  by (auto simp: fetch_from_upstream_def Let_def split: prod.splits option.splits reply.splits poll.splits sum.splits)

text \<open>What a fetch ends with, case by case.\<close>

lemma fetch_unhealthy:
  "\<forall>t \<in> set (targets r). \<not> healthy t \<Longrightarrow>
   fetch_from_upstream std net req r peer = (Ready (Inl no_healthy_upstream), snd (pick_upstream r))"
  using pick_upstream_cases [of r] by (cases "pick_upstream r") (simp add: fetch_from_upstream_def)

lemma fetch_dial_fails:
  "fst (pick_upstream r) = Some target \<Longrightarrow> dial net (strip_scheme target) = Ready (Inl e) \<Longrightarrow>
   fetch_from_upstream std net req r peer = (Ready (Inl e), snd (pick_upstream r))"
  by (cases "pick_upstream r") (simp add: fetch_from_upstream_def Let_def)

lemma fetch_ends: "net_answers net \<Longrightarrow> fst (fetch_from_upstream std net req r peer) \<noteq> Pending"
  by (auto simp: fetch_from_upstream_def net_answers_def Let_def split: prod.splits option.splits reply.splits poll.splits sum.splits)

lemma fetch_replied: "fetch_from_upstream std net req r peer = (Ready (Inr bs), r') \<Longrightarrow>
    \<exists>a text. upstream_reply net a text = Replied bs"
  by (auto simp: fetch_from_upstream_def Let_def split: prod.splits option.splits reply.splits poll.splits sum.splits)

subsection \<open>Splitting inverts the server's own wire form\<close>

lemma lines_from_start:
  assumes "w \<noteq> []" and "hd w \<noteq> CR"
  shows "\<exists>y ls. lines_from (u @ w) s = (rev w @ y) # ls"
proof (induction s arbitrary: u)
  case Nil
  then show ?case using assms by auto
next
  case (Cons c s)
  have "\<exists>y. strip_cr (rev w @ rev u) = rev w @ y"
    using assms by (cases u) (auto simp: strip_cr_def last_rev butlast_append)
  then show ?case using Cons.IH [of "c # u"] by auto
qed

text \<open>A text that starts with a plain piece has a first line that starts with that piece.\<close>

lemma lines_start:
  assumes "p \<noteq> []" and "LF \<notin> set p" and "last p \<noteq> CR"
  shows "\<exists>y ls. lines (p @ s) = (p @ y) # ls"
  using lines_from_start [of "rev p" "[]" s] assms
  by (simp add: lines_def lines_from_no_LF hd_rev)

lemma extract_status_line:
  assumes "list_all plain proto" and "proto \<noteq> []"
  shows "extract_status (proto @ '' '' @ show_word code @ '' '' @ s) = code"
proof -
  let ?p = "proto @ '' '' @ show_word code @ '' ''"
  have blank: "ws1 (CHR '' '')" by (simp add: ws1_def)
  have "ascii v" if "list_all plain v" for v
    using that by (auto simp: ascii_def list_all_iff plain_def)
  then have "ascii ?p" using assms(1) show_nat_plain by simp
  then have decoded: "from_utf8_lossy (?p @ s) = ?p @ from_utf8_lossy s" by (rule from_utf8_lossy_ascii_append)
  have "LF \<notin> set proto" using assms(1) by (auto simp: list_all_iff plain_def ws1_def)
  then have "\<exists>y ls. lines (?p @ from_utf8_lossy s) = (?p @ y) # ls"
    by (intro lines_start) (simp_all add: show_nat_not_in)
  then obtain y ls where "lines (?p @ from_utf8_lossy s) = (?p @ y) # ls" by blast
  moreover have "split_whitespace (?p @ y) = proto # show_word code # split_whitespace y"
    using assms by (simp add: split_whitespace_word [OF _ _ blank] show_nat_plain)
  ultimately show ?thesis using decoded by (simp add: extract_status_def Let_def)
qed

lemma extract_status_wire [simp]: "extract_status (wire r) = status_code r"
proof -
  have "list_all plain ''HTTP/1.1''" by code_simp
  from extract_status_line [OF this, of "status_code r"] show ?thesis
    by (simp add: wire_def response_head_def)
qed

lemma wire_recovered:
  assumes "response_ok r"
  shows "split_raw_response (wire r) = (status_code r, body r)"
proof -
  have "length (response_head r) - 4 + 4 = length (response_head r)"
    by (simp add: response_head_def)
  then show ?thesis
    using wire_split [OF assms] by (simp add: split_raw_response_def)
qed

text \<open>
  C15: The HTTP/2 and HTTP/3 bridges recover exactly what an upstream that runs this same
  server sent: splitting the wire form of any response whose status text, server name and
  content type have no line feed gives back its status and its body, whatever bytes the body
  holds.
\<close>

theorem split_raw_response_wire:
  assumes "response_ok r"
  shows "split_raw_response (wire r) = (status_code r, body r)"
  using assms by (rule wire_recovered)

theorem split_raw_response_wire_witness:
  "split_raw_response (wire (set_body (crlf @ crlf @ ''x'') ''text/css'' (not_found ''N''))) = (404, crlf @ crlf @ ''x'')"
  using split_raw_response_wire [of "set_body (crlf @ crlf @ ''x'') ''text/css'' (not_found ''N'')"]
  by (simp add: response_defs response_ok_def)

text \<open>
  A reply that is no HTTP response is a bad gateway: the status is 502 whenever the first
  line has no second word or that word is not a 16-bit number, and the body handed on is what
  follows the first blank line, or empty if there is none.
\<close>

theorem split_raw_response_spec:
  "(case lines (from_utf8_lossy raw) of
      [] \<Rightarrow> fst (split_raw_response raw) = 502
    | line # _ \<Rightarrow> (length (split_whitespace line) \<le> 1 \<longrightarrow> fst (split_raw_response raw) = 502) \<and>
        (\<forall>w1 w2 ws. split_whitespace line = w1 # w2 # ws \<longrightarrow>
           fst (split_raw_response raw) = (case parse_uint w2 of Some c \<Rightarrow> c | None \<Rightarrow> 502))) \<and>
   (\<not> sublist (crlf @ crlf) raw \<longrightarrow> snd (split_raw_response raw) = []) \<and>
   (sublist (crlf @ crlf) raw \<longrightarrow> (\<exists>head. raw = head @ crlf @ crlf @ snd (split_raw_response raw) \<and>
        find_window raw (crlf @ crlf) = Some (length head)))"
proof (intro conjI impI)
  show "case lines (from_utf8_lossy raw) of
      [] \<Rightarrow> fst (split_raw_response raw) = 502
    | line # _ \<Rightarrow> (length (split_whitespace line) \<le> 1 \<longrightarrow> fst (split_raw_response raw) = 502) \<and>
        (\<forall>w1 w2 ws. split_whitespace line = w1 # w2 # ws \<longrightarrow>
           fst (split_raw_response raw) = (case parse_uint w2 of Some c \<Rightarrow> c | None \<Rightarrow> 502))"
    by (simp add: split_raw_response_def extract_status_def Let_def split: list.split)
next
  assume "\<not> sublist (crlf @ crlf) raw"
  then have "find_window raw (crlf @ crlf) = None" by (rule find_window_None [THEN iffD2])
  then show "snd (split_raw_response raw) = []" by (simp add: split_raw_response_def)
next
  assume "sublist (crlf @ crlf) raw"
  then obtain i where i: "find_window raw (crlf @ crlf) = Some i"
    using find_window_None [of raw "crlf @ crlf"] by (cases "find_window raw (crlf @ crlf)") auto
  then obtain t where t: "drop i raw = crlf @ crlf @ t"
    using find_window_Some [OF i] by (auto elim!: prefixE)
  have il: "i \<le> length raw" using t by (cases "i \<le> length raw") auto
  have "drop (i + 4) raw = drop 4 (drop i raw)" by (simp add: add.commute)
  then have "drop (i + 4) raw = t" by (simp add: t)
  then have "raw = take i raw @ crlf @ crlf @ snd (split_raw_response raw)"
    using t append_take_drop_id [of i raw] i by (simp add: split_raw_response_def)
  then show "\<exists>head. raw = head @ crlf @ crlf @ snd (split_raw_response raw) \<and>
      find_window raw (crlf @ crlf) = Some (length head)"
    using i il by (intro exI [of _ "take i raw"]) simp
qed

theorem split_raw_response_spec_witness:
  "fst (split_raw_response ''garbage'') = 502 \<and> snd (split_raw_response ''garbage'') = []"
proof -
  have "lines (from_utf8_lossy ''garbage'') = [''garbage'']" "split_whitespace ''garbage'' = [''garbage'']"
    "\<not> sublist (crlf @ crlf) ''garbage''" by code_simp+
  then show ?thesis using split_raw_response_spec [of "''garbage''"] by simp
qed

subsection \<open>The request the upstream reads\<close>

definition forwarded_headers :: "std_params \<Rightarrow> request \<Rightarrow> string \<Rightarrow> string \<Rightarrow> (string \<times> string) list" where
  "forwarded_headers std req upstream_addr peer =
     [(''Host'', upstream_addr), (''X-Forwarded-For'', peer), (''Connection'', ''close'')] @
     filter (\<lambda>(k, v). \<not> skip_header k) (hash_order std (req_headers req))"

lemma concat_skip: "concat (map (\<lambda>(k, v). if skip_header k then [] else k @ '': '' @ v @ crlf) m) =
    concat (map header_line (filter (\<lambda>(k, v). \<not> skip_header k) m))"
  by (induction m) (auto simp: header_line_def)

lemma request_text_render:
  "request_text std req upstream_addr peer =
     render_head (req_method req) (req_path req) ''HTTP/1.1'' (forwarded_headers std req upstream_addr peer)"
  by (simp add: request_text_def render_head_def forwarded_headers_def concat_skip, simp add: header_line_def)

lemma map_of_forwarded:
  assumes "std_ok std" and "hm_ok m"
  shows "map_of (rev (filter (\<lambda>(k, v). \<not> skip_header k) (hash_order std m))) k =
    (if skip_header k then None else hm_get m k)"
proof -
  let ?F = "filter (\<lambda>(k, v). \<not> skip_header k) (hash_order std m)"
  have "distinct (map fst (hash_order std m))"
    using hash_order_ok [OF assms] by (simp add: hm_ok_def)
  then have "distinct (map fst ?F)" by (rule distinct_map_filter)
  then have d: "distinct (map fst (rev ?F))" by (simp only: rev_map [symmetric] distinct_rev)
  have iff: "map_of (rev ?F) k = Some v \<longleftrightarrow> \<not> skip_header k \<and> hm_get m k = Some v" for v
    using d by (auto simp: map_of_eq_Some_iff hash_order_set [OF assms] hm.entries_get [OF assms(2)])
  show ?thesis
  proof (cases "map_of (rev ?F) k")
    case None
    then show ?thesis using iff by (cases "hm_get m k") auto
  qed (use iff in auto)
qed

definition request_wf :: "std_params \<Rightarrow> request \<Rightarrow> bool" where
  "request_wf std req =
     (list_all plain (req_method req) \<and> req_method req \<noteq> [] \<and>
      list_all plain (req_path req) \<and> req_path req \<noteq> [] \<and> hm_ok (req_headers req) \<and>
      list_all (\<lambda>(k, v). header_wf (k, v) \<and> to_lowercase (uni_lower std) k = k) (req_headers req))"

lemma forwarded_parse:
  assumes "std_ok std" and "request_wf std' req"
    and "header_wf (''Host'', upstream_addr)" and "header_wf (''X-Forwarded-For'', peer)"
  shows "\<exists>h. parse std' \<lparr>avail = request_text std req upstream_addr peer, ending = e\<rparr> =
      Ready (Inr (\<lparr>req_method = req_method req, req_path = sanitize_path (req_path req),
                   req_version = ''HTTP/1.1'', req_headers = h\<rparr>, \<lparr>avail = [], ending = e\<rparr>)) \<and>
    hm_get h ''host'' = Some upstream_addr \<and> hm_get h ''connection'' = Some ''close'' \<and>
    (\<forall>k. \<not> skip_header k \<longrightarrow> hm_get h k =
       (case hm_get (req_headers req) k of Some v \<Rightarrow> Some v
        | None \<Rightarrow> if k = ''x-forwarded-for'' then Some peer else None))"
proof -
  let ?hdrs = "forwarded_headers std req upstream_addr peer"
  let ?F = "filter (\<lambda>(k, v). \<not> skip_header k) (hash_order std (req_headers req))"
  let ?low = "\<lambda>(k, v). (to_lowercase (uni_lower std') k, v)"
  let ?h = "fold (\<lambda>(k, v). hm_insert (to_lowercase (uni_lower std') k) v) ?hdrs []"
  have wf: "hm_ok (req_headers req)" using assms(2) by (simp add: request_wf_def)
  have F: "header_wf (k, v) \<and> to_lowercase (uni_lower std') k = k" if "(k, v) \<in> set ?F" for k v
    using that assms(2) by (auto simp: hash_order_set [OF assms(1) wf] request_wf_def list_all_iff)
  have "header_wf (''Connection'', ''close'')" by code_simp
  then have "list_all header_wf ?hdrs"
    using F assms(3,4) by (auto simp: forwarded_headers_def list_all_iff)
  moreover have "list_all plain ''HTTP/1.1''" by code_simp
  ultimately have parsed: "parse std' \<lparr>avail = request_text std req upstream_addr peer, ending = e\<rparr> =
      Ready (Inr (\<lparr>req_method = req_method req, req_path = sanitize_path (req_path req),
                   req_version = ''HTTP/1.1'', req_headers = ?h\<rparr>, \<lparr>avail = [], ending = e\<rparr>))"
    using parse_rendered [of "req_method req" "req_path req" "''HTTP/1.1''" ?hdrs std' "[]" e] assms(2)
    by (simp add: request_text_render request_wf_def)
  have "map ?low ?F = map id ?F" by (rule map_cong [OF refl]) (use F in \<open>force split: prod.splits\<close>)
  moreover have "ascii ''Host''" "map ascii_lower ''Host'' = ''host''"
      "ascii ''X-Forwarded-For''" "map ascii_lower ''X-Forwarded-For'' = ''x-forwarded-for''"
      "ascii ''Connection''" "map ascii_lower ''Connection'' = ''connection''"
    by code_simp+
  then have "to_lowercase (uni_lower std') ''Host'' = ''host''"
      "to_lowercase (uni_lower std') ''X-Forwarded-For'' = ''x-forwarded-for''"
      "to_lowercase (uni_lower std') ''Connection'' = ''connection''"
    by (simp_all only: to_lowercase_def if_True)
  ultimately have low: "map ?low ?hdrs =
      [(''host'', upstream_addr), (''x-forwarded-for'', peer), (''connection'', ''close'')] @ ?F"
    by (simp add: forwarded_headers_def)
  have "?h = fold (\<lambda>(k, v). hm_insert k v) (map ?low ?hdrs) []"
    by (simp add: fold_map comp_def case_prod_unfold)
  then have get: "hm_get ?h k = (case (if skip_header k then None else hm_get (req_headers req) k) of
      Some v \<Rightarrow> Some v
    | None \<Rightarrow> map_of [(''connection'', ''close''), (''x-forwarded-for'', peer), (''host'', upstream_addr)] k)" for k
    by (simp only: hm.get_fold_empty low rev_append map_of_append map_of_forwarded [OF assms(1) wf] map_add_def)
      (simp split: option.split)
  have "skip_header ''host''" "skip_header ''connection''" by code_simp+
  then show ?thesis using parsed get by (auto split: option.split)
qed

text \<open>
  C7: What the upstream reads: for a request whose method and path are plain text, an upstream
  that parses the forwarded head with this same parser (with its own tables and hash order)
  reads the same method, the sanitised path, the upstream's own address as host, \<open>close\<close> as
  connection, and every other header of the client unchanged, whatever the order the header
  map is iterated in. The path is sanitised a second time there: it is the same path if it has
  no percent sign, no question mark and no double dot. The peer address arrives as
  \<open>x-forwarded-for\<close> only if the client sent no header of that name: otherwise the client's own
  value is read.
\<close>

theorem forwarded_request:
  assumes "std_ok std" and "request_wf std' req"
    and "header_wf (''Host'', upstream_addr)" and "header_wf (''X-Forwarded-For'', peer)"
  shows "\<exists>h. parse std' \<lparr>avail = request_text std req upstream_addr peer, ending = e\<rparr> =
      Ready (Inr (\<lparr>req_method = req_method req, req_path = sanitize_path (req_path req),
                   req_version = ''HTTP/1.1'', req_headers = h\<rparr>, \<lparr>avail = [], ending = e\<rparr>)) \<and>
    (CHR ''%'' \<notin> set (req_path req) \<and> CHR ''?'' \<notin> set (req_path req) \<and> \<not> sublist ''..'' (req_path req) \<longrightarrow>
       sanitize_path (req_path req) = req_path req) \<and>
    hm_get h ''host'' = Some upstream_addr \<and> hm_get h ''connection'' = Some ''close'' \<and>
    (\<forall>k. \<not> skip_header k \<longrightarrow> hm_get h k =
       (case hm_get (req_headers req) k of Some v \<Rightarrow> Some v
        | None \<Rightarrow> if k = ''x-forwarded-for'' then Some peer else None))"
proof -
  have "utf8_valid (req_path req)" using assms(2) by (simp add: request_wf_def plain_utf8)
  then show ?thesis using forwarded_parse [OF assms, of e] sanitize_path_id [of "req_path req"] by blast
qed

definition sample_request :: request where
  "sample_request = \<lparr>req_method = ''GET'', req_path = ''/api/x'', req_version = ''HTTP/2'',
     req_headers = [(''accept'', ''text/html''), (''x-forwarded-for'', ''10.0.0.1'')]\<rparr>"

theorem forwarded_request_witness:
  "\<exists>h s. parse std_id \<lparr>avail = request_text std_rev sample_request ''a:1'' ''192.0.2.7:5'', ending = Silent\<rparr> =
     Ready (Inr (\<lparr>req_method = ''GET'', req_path = ''/api/x'', req_version = ''HTTP/1.1'', req_headers = h\<rparr>, s)) \<and>
   hm_get h ''x-forwarded-for'' = Some ''10.0.0.1''"
proof -
  have wf: "request_wf std_id sample_request" by code_simp
  have up: "header_wf (''Host'', ''a:1'')" by code_simp
  have pw: "header_wf (''X-Forwarded-For'', ''192.0.2.7:5'')" by code_simp
  have "\<not> skip_header ''x-forwarded-for''" "\<not> sublist ''..'' ''/api/x''" by code_simp+
  then show ?thesis
    using forwarded_request [OF std_rev_ok wf up pw, of Silent] by (auto simp: sample_request_def hm_get_def)
qed

subsection \<open>Line ends in a path\<close>






text \<open>
  The query string never reaches an upstream: whatever follows the question mark of the
  request target, the parsed path, and so the forwarded request, is the same.
\<close>

theorem query_is_dropped:
  "sanitize_path (p @ CHR ''?'' # q) = sanitize_path (p @ CHR ''?'' # q')"
proof -
  have "takeWhile ((\<noteq>) (CHR ''?'')) (p @ CHR ''?'' # q) = takeWhile ((\<noteq>) (CHR ''?'')) (p @ CHR ''?'' # q')"
    by (induction p) auto
  then show ?thesis by (simp add: sanitize_path_eq)
qed

subsection \<open>Relaying\<close>

text \<open>
  \<open>relay\<close> hands the upstream's bytes to the client unchanged and returns the status it
  read in them; if no target is healthy, the dial, the write or the read fails or ten seconds
  pass, it fails without having written anything to the client; if the client's connection
  breaks, it fails with the client's error after a prefix of the reply, and if the client stops
  reading it never ends.
\<close>

theorem relay_spec:
  "(case fst (fetch_from_upstream std net req r peer) of
      Pending \<Rightarrow> fst (relay std net req r client peer) = Pending \<and> snd (snd (relay std net req r client peer)) = client
    | Ready (Inl e) \<Rightarrow> fst (relay std net req r client peer) = Ready (Inl e) \<and> snd (snd (relay std net req r client peer)) = client
    | Ready (Inr bs) \<Rightarrow>
        (room client = None \<and> flush_result client = Ready (Inr ()) \<longrightarrow>
           fst (relay std net req r client peer) = Ready (Inr (extract_status bs)) \<and>
           snd (snd (relay std net req r client peer)) = client\<lparr>written := written client @ bs\<rparr>) \<and>
        (\<forall>n. room client = Some n \<and> n < length bs \<longrightarrow>
           fst (relay std net req r client peer) = (if stalls client then Pending else Ready (Inl (write_err client))) \<and>
           written (snd (snd (relay std net req r client peer))) = written client @ take n bs)) \<and>
   fst (snd (relay std net req r client peer)) = snd (fetch_from_upstream std net req r peer)"
  by (cases "fetch_from_upstream std net req r peer")
    (auto simp: relay_def write_all_def flush_def Let_def split: sum.splits option.splits poll.splits)

definition echo_net :: network where
  "echo_net = \<lparr>dial = (\<lambda>_. Ready (Inr ())), upstream_write = (\<lambda>_ _. Ready (Inr ())),
     upstream_reply = (\<lambda>_ _. Replied (wire (set_body ''hello'' ''text/plain'' (ok ''up''))))\<rparr>"

lemma echo_answers: "net_answers echo_net"
  by (simp add: net_answers_def echo_net_def)

lemma echo_fetch: "fst (fetch_from_upstream std echo_net req fair_route peer) =
   Ready (Inr (wire (set_body ''hello'' ''text/plain'' (ok ''up''))))"
proof -
  have "\<forall>t \<in> set (targets fair_route). healthy t" "targets fair_route \<noteq> []"
    by (simp_all add: fair_route_def sample_route_def)
  from pick_upstream_all_healthy [OF this] show ?thesis
    by (simp add: fetch_from_upstream_def echo_net_def Let_def)
qed

theorem relay_spec_witness:
  "fst (relay std_id echo_net sample_request fair_route open_sink ''p'') =
     Ready (Inr (extract_status (wire (set_body ''hello'' ''text/plain'' (ok ''up'')))))"
  using relay_spec [where std = std_id and net = echo_net and req = sample_request and r = fair_route
      and peer = "''p''" and client = open_sink]
  by (simp add: echo_fetch open_sink_def)

end
