(* ===== verification/Wasm.thy ===== *)
theory Wasm
  imports Config Request Response
begin

section \<open>WASM handlers (src/wasm/mod.rs)\<close>

text \<open>
  The table of WASM routes and \<open>invoke\<close>, the host side of the handler ABI. The engine is the
  third-party crate \<open>wasmi\<close>: a record of the operations the code calls, over a type \<open>'m\<close> of
  compiled modules and a type \<open>'g\<close> of stores (one instance and its memory). A guest function
  may return, trap or run for ever.
\<close>

type_synonym i32 = "32 word"
type_synonym i64 = "64 word"

text \<open>A computation with \<open>Result<_, String>\<close> that may not return: \<open>None\<close> if it does not.\<close>

type_synonym 'a attempt = "(string + 'a) option"

definition attempt_bind :: "'a attempt \<Rightarrow> ('a \<Rightarrow> 'b attempt) \<Rightarrow> 'b attempt" where
  "attempt_bind r f = (case r of None \<Rightarrow> None | Some (Inl e) \<Rightarrow> Some (Inl e) | Some (Inr x) \<Rightarrow> f x)"

definition context_msg :: "string \<Rightarrow> 'a attempt \<Rightarrow> 'a attempt" where
  "context_msg what r = map_option (map_sum (\<lambda>e. what @ e) (\<lambda>x. x)) r"

record ('m, 'g) wasmi =
  compile :: "bytes \<Rightarrow> string + 'm"
  instantiate :: "'m \<Rightarrow> string + 'g"
  start :: "'g \<Rightarrow> 'g attempt"
  has_memory :: "'g \<Rightarrow> bool"
  typed_alloc :: "'g \<Rightarrow> string + unit"
  typed_handle :: "'g \<Rightarrow> string + unit"
  call_alloc :: "'g \<Rightarrow> i32 \<Rightarrow> (i32 \<times> 'g) attempt"
  call_handle :: "'g \<Rightarrow> i32 \<times> i32 \<times> i32 \<times> i32 \<Rightarrow> (i64 \<times> 'g) attempt"
  mem_write :: "'g \<Rightarrow> usize \<Rightarrow> bytes \<Rightarrow> string + 'g"
  mem_read :: "'g \<Rightarrow> usize \<Rightarrow> usize \<Rightarrow> string + bytes"

lemma unat_ucast_up: "unat (ucast (x :: u32) :: usize) = unat x"
  by (simp add: unsigned_ucast_eq take_bit_nat_eq_self order_less_le_trans [OF unsigned_less])

subsection \<open>The table\<close>

record 'm wasm_route =
  wr_prefix :: string
  wr_module :: 'm

record 'm wasm_table =
  wt_routes :: "'m wasm_route list"

definition load_module :: "('m, 'g) wasmi \<Rightarrow> (string \<Rightarrow> bytes io_result) \<Rightarrow> string \<Rightarrow> 'm io_result" where
  "load_module w read_file path =
     (case read_file path of
        Inl e \<Rightarrow> Inl (io_err (err_kind e) (''could not read '' @ [CHR 0x27] @ path @ [CHR 0x27] @ '': '' @ err_msg e))
      | Inr bytes \<Rightarrow>
          (case compile w bytes of
             Inl e \<Rightarrow> Inl (io_err InvalidData (''invalid WASM module: '' @ e))
           | Inr m \<Rightarrow> Inr m))"

definition load_warning :: "string \<Rightarrow> string \<Rightarrow> io_error \<Rightarrow> string" where
  "load_warning pre path e =
     ''[nwarp] warning: failed to load WASM module '' @ [CHR 0x27] @ path @ [CHR 0x27] @ '' for route '' @
     [CHR 0x27] @ pre @ [CHR 0x27] @ '': '' @ err_msg e"

text \<open>The loop over the configured routes: the routes kept and the lines written to standard error.\<close>

fun load_wasm_routes :: "('m, 'g) wasmi \<Rightarrow> (string \<Rightarrow> bytes io_result) \<Rightarrow> (string \<times> string) list \<Rightarrow>
    'm wasm_route list \<times> string list" where
  "load_wasm_routes w read_file [] = ([], [])"
| "load_wasm_routes w read_file ((pre, path) # rest) =
     (let (routes, warnings) = load_wasm_routes w read_file rest in
      case load_module w read_file path of
        Inr m \<Rightarrow> (\<lparr>wr_prefix = pre, wr_module = m\<rparr> # routes, warnings)
      | Inl e \<Rightarrow> (routes, load_warning pre path e # warnings))"

definition wasm_from_config :: "('m, 'g) wasmi \<Rightarrow> (string \<Rightarrow> bytes io_result) \<Rightarrow> config \<Rightarrow>
    'm wasm_table \<times> string list" where
  "wasm_from_config w read_file cfg =
     (let (routes, warnings) = load_wasm_routes w read_file (wasm_routes cfg)
      in (\<lparr>wt_routes = routes\<rparr>, warnings))"

definition wasm_match_route :: "'m wasm_table \<Rightarrow> string \<Rightarrow> 'm wasm_route option" where
  "wasm_match_route t path =
     max_by_key (\<lambda>r. length (wr_prefix r)) (filter (\<lambda>r. prefix (wr_prefix r) path) (wt_routes t))"

definition wasm_has_routes :: "'m wasm_table \<Rightarrow> bool" where
  "wasm_has_routes t = (wt_routes t \<noteq> [])"

lemma wasm_match_route_fun: "wasm_match_route t =
   (\<lambda>p. max_by_key (\<lambda>r. length (wr_prefix r)) (filter (\<lambda>r. prefix (wr_prefix r) p) (wt_routes t)))"
  by (simp add: fun_eq_iff wasm_match_route_def)

lemmas wasm_match_facts = longest_match_facts [OF wasm_match_route_fun]

interpretation wasm: prefix_table wt_routes wr_prefix wasm_match_route
  by unfold_locales (rule wasm_match_facts, assumption+)+

subsection \<open>One invocation\<close>

text \<open>\<open>len as i32\<close> truncates, \<open>ptr as usize\<close> extends the sign, \<open>as u32 as usize\<close> does not.\<close>

definition len_i32 :: "bytes \<Rightarrow> i32" where
  "len_i32 s = of_nat (length s)"

definition ptr_usize :: "i32 \<Rightarrow> usize" where
  "ptr_usize p = scast p"

definition response_ptr :: "i64 \<Rightarrow> usize" where
  "response_ptr packed = ucast (ucast (signed_drop_bit 32 packed) :: u32)"

definition response_len :: "i64 \<Rightarrow> usize" where
  "response_len packed = ucast (ucast (and packed 0xFFFFFFFF) :: u32)"

definition u16_from_le_bytes :: "char \<Rightarrow> char \<Rightarrow> u16" where
  "u16_from_le_bytes b0 b1 = of_nat (byte b0 + 256 * byte b1)"

text \<open>\<open>alloc\<close> a buffer in the guest and copy a string into it.\<close>

definition pass_string :: "('m, 'g) wasmi \<Rightarrow> string \<Rightarrow> 'g \<Rightarrow> string \<Rightarrow> (i32 \<times> 'g) attempt" where
  "pass_string w what g s =
     attempt_bind (context_msg ''alloc call failed: '' (call_alloc w g (len_i32 s))) (\<lambda>(p, g).
     attempt_bind (context_msg (''writing '' @ what @ '' into guest memory failed: '')
        (Some (mem_write w g (ptr_usize p) s))) (\<lambda>g.
     Some (Inr (p, g))))"

definition read_response :: "('m, 'g) wasmi \<Rightarrow> 'g \<Rightarrow> i64 \<Rightarrow> (u16 \<times> bytes) attempt" where
  "read_response w g packed =
     (if response_len packed < 2 then
        Some (Inl ''handler returned a response shorter than the 2-byte status header'')
      else
        attempt_bind (context_msg ''reading response from guest memory failed: ''
          (Some (mem_read w g (response_ptr packed) (response_len packed)))) (\<lambda>buf.
        Some (Inr (u16_from_le_bytes (buf ! 0) (buf ! 1), drop 2 buf))))"

definition invoke :: "('m, 'g) wasmi \<Rightarrow> 'm wasm_route \<Rightarrow> string \<Rightarrow> string \<Rightarrow> (u16 \<times> bytes) attempt" where
  "invoke w r meth path =
     attempt_bind (context_msg ''instantiation failed: '' (Some (instantiate w (wr_module r)))) (\<lambda>g.
     attempt_bind (context_msg ''module start failed: '' (start w g)) (\<lambda>g.
     attempt_bind (if has_memory w g then Some (Inr ())
                   else Some (Inl (''module does not export '' @ [CHR 0x27] @ ''memory'' @ [CHR 0x27]))) (\<lambda>_.
     attempt_bind (context_msg (''module does not export a compatible '' @ [CHR 0x27] @ ''alloc'' @ [CHR 0x27] @ '': '')
        (Some (typed_alloc w g))) (\<lambda>_.
     attempt_bind (context_msg (''module does not export a compatible '' @ [CHR 0x27] @ ''handle'' @ [CHR 0x27] @ '': '')
        (Some (typed_handle w g))) (\<lambda>_.
     attempt_bind (pass_string w ''method'' g meth) (\<lambda>(method_ptr, g).
     attempt_bind (pass_string w ''path'' g path) (\<lambda>(path_ptr, g).
     attempt_bind (context_msg ''handle call failed: ''
        (call_handle w g (method_ptr, len_i32 meth, path_ptr, len_i32 path))) (\<lambda>(packed, g).
     read_response w g packed))))))))"

subsection \<open>The table holds the modules that load\<close>

definition loads :: "('m, 'g) wasmi \<Rightarrow> (string \<Rightarrow> bytes io_result) \<Rightarrow> string \<times> string \<Rightarrow> bool" where
  "loads w read_file = (\<lambda>(pre, path). \<not> isl (load_module w read_file path))"

lemma load_wasm_routes_spec:
  "map (\<lambda>r. (wr_prefix r, Some (wr_module r))) (fst (load_wasm_routes w read_file cs)) =
      map (\<lambda>(pre, path). (pre, case load_module w read_file path of Inr m \<Rightarrow> Some m | Inl e \<Rightarrow> None))
        (filter (loads w read_file) cs)"
  "length (snd (load_wasm_routes w read_file cs)) = length (filter (\<lambda>c. \<not> loads w read_file c) cs)"
proof (induction cs)
  case (Cons c cs)
  obtain pre path where c: "c = (pre, path)" by (cases c)
  {
    case 1
    then show ?case using Cons(1)
      by (cases "load_module w read_file path") (simp_all add: c loads_def Let_def case_prod_beta)
  next
    case 2
    then show ?case using Cons(2)
      by (cases "load_module w read_file path") (simp_all add: c loads_def Let_def case_prod_beta)
  }
qed simp_all

text \<open>
  Building the WASM table never fails: it has, in configuration order, one route per
  configured module that can be read and compiled, with that module, and each of the others is
  dropped with one warning.
\<close>

theorem wasm_table_loads:
  "map (\<lambda>r. (wr_prefix r, Some (wr_module r))) (wt_routes (fst (wasm_from_config w read_file cfg))) =
      map (\<lambda>(pre, path). (pre, case load_module w read_file path of Inr m \<Rightarrow> Some m | Inl e \<Rightarrow> None))
        (filter (loads w read_file) (wasm_routes cfg)) \<and>
   length (snd (wasm_from_config w read_file cfg)) =
      length (filter (\<lambda>c. \<not> loads w read_file c) (wasm_routes cfg))"
  using load_wasm_routes_spec [of w read_file "wasm_routes cfg"]
  by (simp add: wasm_from_config_def case_prod_beta Let_def)

subsection \<open>Facts about the attempt\<close>

lemma attempt_bind_simps [simp]:
  "attempt_bind None f = None"
  "attempt_bind (Some (Inl e)) f = Some (Inl e)"
  "attempt_bind (Some (Inr x)) f = f x"
  by (simp_all add: attempt_bind_def)

lemma context_msg_simps [simp]:
  "context_msg what None = None"
  "context_msg what (Some (Inl e)) = Some (Inl (what @ e))"
  "context_msg what (Some (Inr x)) = Some (Inr x)"
  by (simp_all add: context_msg_def)

lemma context_msg_None [simp]: "context_msg what r = None \<longleftrightarrow> r = None"
  by (simp add: context_msg_def)

lemma attempt_bind_returns: "r \<noteq> None \<Longrightarrow> (\<And>x. f x \<noteq> None) \<Longrightarrow> attempt_bind r f \<noteq> None"
  by (auto simp: attempt_bind_def split: option.split sum.split)

lemma attempt_bind_assoc:
  "attempt_bind (attempt_bind r f) g = attempt_bind r (\<lambda>x. attempt_bind (f x) g)"
  by (simp add: attempt_bind_def split: option.split sum.split)

subsection \<open>The answer of the guest\<close>

text \<open>The invocation up to the return of \<open>handle\<close>.\<close>

definition handled :: "('m, 'g) wasmi \<Rightarrow> 'm wasm_route \<Rightarrow> string \<Rightarrow> string \<Rightarrow> (i64 \<times> 'g) attempt" where
  "handled w r meth path =
     attempt_bind (context_msg ''instantiation failed: '' (Some (instantiate w (wr_module r)))) (\<lambda>g.
     attempt_bind (context_msg ''module start failed: '' (start w g)) (\<lambda>g.
     attempt_bind (if has_memory w g then Some (Inr ())
                   else Some (Inl (''module does not export '' @ [CHR 0x27] @ ''memory'' @ [CHR 0x27]))) (\<lambda>_.
     attempt_bind (context_msg (''module does not export a compatible '' @ [CHR 0x27] @ ''alloc'' @ [CHR 0x27] @ '': '')
        (Some (typed_alloc w g))) (\<lambda>_.
     attempt_bind (context_msg (''module does not export a compatible '' @ [CHR 0x27] @ ''handle'' @ [CHR 0x27] @ '': '')
        (Some (typed_handle w g))) (\<lambda>_.
     attempt_bind (pass_string w ''method'' g meth) (\<lambda>(method_ptr, g).
     attempt_bind (pass_string w ''path'' g path) (\<lambda>(path_ptr, g).
     context_msg ''handle call failed: ''
        (call_handle w g (method_ptr, len_i32 meth, path_ptr, len_i32 path)))))))))"

lemma invoke_handled: "invoke w r meth path = attempt_bind (handled w r meth path) (\<lambda>(packed, g). read_response w g packed)"
  unfolding invoke_def handled_def by (simp only: attempt_bind_assoc case_prod_unfold)

text \<open>The ABI's return value: \<open>(response_ptr << 32) | response_len\<close>.\<close>

definition pack :: "u32 \<Rightarrow> u32 \<Rightarrow> i64" where
  "pack p l = or (push_bit 32 (ucast p)) (ucast l)"

lemma response_ptr_pack [simp]: "response_ptr (pack p l) = ucast p"
  unfolding response_ptr_def pack_def
  by (rule arg_cong [where f = ucast], rule bit_word_eqI)
     (auto simp: bit_simps dest: bit_imp_le_length)

lemma low_mask: "(0xFFFFFFFF :: i64) = mask 32"
  by (simp add: mask_eq_exp_minus_1)

lemma response_len_pack [simp]: "response_len (pack p l) = ucast l"
  unfolding response_len_def pack_def low_mask
  by (rule arg_cong [where f = ucast], rule bit_word_eqI)
     (auto simp: bit_simps dest: bit_imp_le_length)

text \<open>
  The documented contract of the engine's memory accesses, over the contents \<open>contents g\<close> of
  a store's memory: an access inside the memory succeeds and is a plain copy, any other is an
  error and changes nothing.
\<close>

locale guest_memory =
  fixes w :: "('m, 'g) wasmi" and contents :: "'g \<Rightarrow> bytes"
  assumes write_in: "unat p + length bs \<le> length (contents g) \<Longrightarrow>
      \<exists>g'. mem_write w g p bs = Inr g' \<and>
        contents g' = take (unat p) (contents g) @ bs @ drop (unat p + length bs) (contents g)"
    and write_out: "length (contents g) < unat p + length bs \<Longrightarrow> \<exists>e. mem_write w g p bs = Inl e"
    and read_in: "unat p + unat n \<le> length (contents g) \<Longrightarrow>
      mem_read w g p n = Inr (take (unat n) (drop (unat p) (contents g)))"
    and read_out: "length (contents g) < unat p + unat n \<Longrightarrow> \<exists>e. mem_read w g p n = Inl e"
begin

lemma read_response_short:
  "unat l < 2 \<Longrightarrow> read_response w g (pack p l) =
     Some (Inl ''handler returned a response shorter than the 2-byte status header'')"
  by (simp add: read_response_def word_less_nat_alt unat_ucast_up)

lemma read_response_out:
  assumes "2 \<le> unat l" and "length (contents g) < unat p + unat l"
  shows "\<exists>e. read_response w g (pack p l) = Some (Inl e)"
  using assms read_out [of g "ucast p" "ucast l"]
  by (auto simp: read_response_def word_less_nat_alt unat_ucast_up)

lemma read_response_in:
  assumes "2 \<le> unat l" and "unat p + unat l \<le> length (contents g)"
  shows "read_response w g (pack p l) =
     Some (Inr (u16_from_le_bytes (contents g ! unat p) (contents g ! (unat p + 1)),
                take (unat l - 2) (drop (unat p + 2) (contents g))))"
proof -
  have "mem_read w g (ucast p) (ucast l) = Inr (take (unat l) (drop (unat p) (contents g)))"
    using read_in [of "ucast p" "ucast l" g] assms(2) by (simp add: unat_ucast_up)
  moreover have "drop 2 (take (unat l) (drop (unat p) (contents g))) =
      take (unat l - 2) (drop (unat p + 2) (contents g))"
    by (simp add: drop_take add.commute)
  ultimately show ?thesis
    using assms by (simp add: read_response_def word_less_nat_alt unat_ucast_up)
qed

lemma pass_string_in:
  assumes "call_alloc w g (len_i32 s) = Some (Inr (p, g'))"
    and "unat (ptr_usize p) + length s \<le> length (contents g')"
  shows "\<exists>g''. pass_string w what g s = Some (Inr (p, g'')) \<and> mem_write w g' (ptr_usize p) s = Inr g'' \<and>
     contents g'' = take (unat (ptr_usize p)) (contents g') @ s @ drop (unat (ptr_usize p) + length s) (contents g')"
  using assms write_in [of "ptr_usize p" s g'] by (auto simp: pass_string_def)

lemma pass_string_out:
  assumes "call_alloc w g (len_i32 s) = Some (Inr (p, g'))"
    and "length (contents g') < unat (ptr_usize p) + length s"
  shows "\<exists>e. pass_string w what g s = Some (Inl e)"
  using assms write_out [of g' "ptr_usize p" s] by (auto simp: pass_string_def)

end

lemma ptr_usize_low:
  assumes "unat p < 2 ^ 31"
  shows "unat (ptr_usize p) = unat p"
proof -
  have "uint p = int (unat p)" by simp
  then have "uint p < 2 ^ 31" using assms of_nat_less_iff [where 'a = int, of "unat p" "2 ^ 31"] by simp
  then have "sint p = uint p" 
    using signed_take_bit_int_eq_self [of 31 "uint p"] uint_ge_0 [of p]
    by (simp add: sint_uint del: uint_ge_0)
  then have "ptr_usize p = word_of_int (uint p)" by (simp add: ptr_usize_def scast_eq)
  then show ?thesis using assms by (simp add: ucast_eq [symmetric] unat_ucast_up)
qed

lemma pack_surj: "\<exists>p l. packed = pack p l"
proof (intro exI)
  show "packed = pack (ucast (drop_bit 32 packed)) (ucast packed)"
    by (rule bit_word_eqI) (auto simp: pack_def bit_simps dest: bit_imp_le_length)
qed

text \<open>
  C18: The host side of the ABI: once \<open>handle\<close> has returned (and every \<open>i64\<close> is
  \<open>(p << 32) | l\<close> for some \<open>p\<close> and \<open>l\<close>), a length below 2 is an error; a response that
  lies inside the guest's memory gives its first two bytes as a little-endian status and
  exactly the other \<open>l - 2\<close> bytes as the body; any other is an error, so a handler never makes
  the host read outside the sandbox.
\<close>

theorem invoke_response:
  assumes "guest_memory w contents" and "handled w r meth path = Some (Inr (pack p l, g))"
  shows "(unat l < 2 \<longrightarrow> (\<exists>e. invoke w r meth path = Some (Inl e))) \<and>
    (2 \<le> unat l \<and> unat p + unat l \<le> length (contents g) \<longrightarrow>
       invoke w r meth path = Some (Inr (of_nat (byte (contents g ! unat p) + 256 * byte (contents g ! (unat p + 1))),
         take (unat l - 2) (drop (unat p + 2) (contents g))))) \<and>
    (length (contents g) < unat p + unat l \<longrightarrow> (\<exists>e. invoke w r meth path = Some (Inl e)))"
proof -
  have i: "invoke w r meth path = read_response w g (pack p l)"
    by (simp add: invoke_handled assms(2))
  then show ?thesis
    using guest_memory.read_response_short [OF assms(1), of l g p]
      guest_memory.read_response_out [OF assms(1), of l g p]
      guest_memory.read_response_in [OF assms(1), of l p g]
    by (cases "unat l < 2") (simp_all add: u16_from_le_bytes_def not_less)
qed

text \<open>A guest whose functions all return.\<close>

definition guest_returns :: "('m, 'g) wasmi \<Rightarrow> bool" where
  "guest_returns w = ((\<forall>g. start w g \<noteq> None) \<and> (\<forall>g n. call_alloc w g n \<noteq> None) \<and>
     (\<forall>g x. call_handle w g x \<noteq> None))"

lemma pass_string_returns: "guest_returns w \<Longrightarrow> pass_string w what g s \<noteq> None"
  unfolding pass_string_def guest_returns_def case_prod_unfold
  by (intro attempt_bind_returns) auto

lemma read_response_returns: "read_response w g packed \<noteq> None"
proof (cases "response_len packed < 2")
  case False
  then show ?thesis unfolding read_response_def
    by (simp only: if_False) (rule attempt_bind_returns, simp_all)
qed (simp add: read_response_def)

lemma invoke_total:
  assumes g: "guest_returns w"
  shows "\<exists>v. invoke w r meth path = Some v"
proof -
  have "invoke w r meth path \<noteq> None"
    unfolding invoke_def case_prod_unfold
    by (intro attempt_bind_returns pass_string_returns read_response_returns g)
       (use g in \<open>auto simp: guest_returns_def\<close>)
  then show ?thesis by simp
qed

text \<open>
  If the guest's functions return, so does the invocation, with a response or an error
  (missing exports, traps and bad pointers included).
\<close>

theorem invoke_returns:
  assumes g: "guest_returns w"
  shows "\<exists>v. invoke w r meth path = Some v"
  by (rule invoke_total [OF g])

end
