(* ===== verification/Hello_Wasm.thy ===== *)
theory Hello_Wasm
  imports Wasm
begin

section \<open>The example handler (wasm/hello.wat)\<close>

text \<open>
  The WASM module shipped with the server, function by function, as an instance of the guest
  the host code talks to: its state is the bump pointer and two pages of memory. It shows
  that the contract of \<open>guest_memory\<close> can be met, and what a request to it is answered.
\<close>

subsection \<open>Linear memory\<close>

definition splice :: "nat \<Rightarrow> bytes \<Rightarrow> bytes \<Rightarrow> bytes" where
  "splice off bs m = take off m @ bs @ drop (off + length bs) m"

text \<open>A store and a load of linear memory trap (or are refused) when they leave it.\<close>

definition mem_put :: "nat \<Rightarrow> bytes \<Rightarrow> bytes \<Rightarrow> string + bytes" where
  "mem_put off bs m = (if off + length bs \<le> length m then Inr (splice off bs m)
     else Inl ''out of bounds memory access'')"

definition mem_get :: "nat \<Rightarrow> nat \<Rightarrow> bytes \<Rightarrow> string + bytes" where
  "mem_get off n m = (if off + n \<le> length m then Inr (take n (drop off m))
     else Inl ''out of bounds memory access'')"

definition memory_copy :: "u32 \<Rightarrow> u32 \<Rightarrow> u32 \<Rightarrow> bytes \<Rightarrow> string + bytes" where
  "memory_copy dst src n m =
     (case mem_get (unat src) (unat n) m of Inl e \<Rightarrow> Inl e | Inr bs \<Rightarrow> mem_put (unat dst) bs m)"

definition store16 :: "u32 \<Rightarrow> u16 \<Rightarrow> bytes \<Rightarrow> string + bytes" where
  "store16 a v m = mem_put (unat a) [char_of (unat v mod 256), char_of (unat v div 256)] m"

subsection \<open>The module\<close>

record hello_store =
  heap_ptr :: u32
  memory :: bytes

definition hello_data :: string where
  "hello_data = ''Hello from a sandboxed WASM module! You requested: ''"

definition two_pages :: nat where
  "two_pages = 2 * 65536"

definition hello_start :: hello_store where
  "hello_start = \<lparr>heap_ptr = 4096, memory = splice 0 hello_data (replicate two_pages (CHR 0x00))\<rparr>"

definition hello_alloc :: "hello_store \<Rightarrow> i32 \<Rightarrow> i32 \<times> hello_store" where
  "hello_alloc g sz = (heap_ptr g, g\<lparr>heap_ptr := heap_ptr g + sz\<rparr>)"

definition hello_handle :: "hello_store \<Rightarrow> i32 \<times> i32 \<times> i32 \<times> i32 \<Rightarrow> string + (i64 \<times> hello_store)" where
  "hello_handle g = (\<lambda>(method_ptr, method_len, path_ptr, path_len).
     (let prefix_len = 51;
          total_len = 2 + (prefix_len + path_len);
          (buf, g) = hello_alloc g total_len
      in case store16 buf 200 (memory g) of
           Inl e \<Rightarrow> Inl e
         | Inr m \<Rightarrow>
             (case memory_copy (buf + 2) 0 prefix_len m of
                Inl e \<Rightarrow> Inl e
              | Inr m \<Rightarrow>
                  (case memory_copy (buf + (2 + prefix_len)) path_ptr path_len m of
                     Inl e \<Rightarrow> Inl e
                   | Inr m \<Rightarrow> Inr (or (push_bit 32 (ucast buf)) (ucast total_len), g\<lparr>memory := m\<rparr>)))))"

text \<open>An engine whose modules are all this one.\<close>

definition hello_engine :: "(unit, hello_store) wasmi" where
  "hello_engine = \<lparr>compile = (\<lambda>_. Inr ()), instantiate = (\<lambda>_. Inr hello_start),
     start = (\<lambda>g. Some (Inr g)), has_memory = (\<lambda>_. True),
     typed_alloc = (\<lambda>_. Inr ()), typed_handle = (\<lambda>_. Inr ()),
     call_alloc = (\<lambda>g n. Some (Inr (hello_alloc g n))),
     call_handle = (\<lambda>g x. Some (hello_handle g x)),
     mem_write = (\<lambda>g p bs. map_sum (\<lambda>e. e) (\<lambda>m. g\<lparr>memory := m\<rparr>) (mem_put (unat p) bs (memory g))),
     mem_read = (\<lambda>g p n. mem_get (unat p) (unat n) (memory g))\<rparr>"

interpretation hello: guest_memory hello_engine memory
  by unfold_locales (auto simp: hello_engine_def mem_put_def mem_get_def splice_def)

lemma hello_guest_memory: "guest_memory hello_engine memory"
  by (rule hello.guest_memory_axioms)

lemma hello_guest_returns: "guest_returns hello_engine"
  by (simp add: guest_returns_def hello_engine_def)

subsection \<open>Splices\<close>

lemma length_splice [simp]: "off + length bs \<le> length m \<Longrightarrow> length (splice off bs m) = length m"
  by (simp add: splice_def)

lemma splice_read: "off + length bs \<le> length m \<Longrightarrow> take (length bs) (drop off (splice off bs m)) = bs"
  by (simp add: splice_def)

lemma splice_read_before:
  "a + n \<le> off \<Longrightarrow> off + length bs \<le> length m \<Longrightarrow> take n (drop a (splice off bs m)) = take n (drop a m)"
  by (rule nth_equalityI) (auto simp: splice_def nth_append)

lemma splice_adjacent:
  "off + length a + length b \<le> length m \<Longrightarrow>
     splice (off + length a) b (splice off a m) = splice off (a @ b) m"
  by (simp add: splice_def ac_simps)

subsection \<open>What a request is answered\<close>

lemma two_pages [simp]: "two_pages = 131072"
  by (simp add: two_pages_def)

lemma length_hello_data [simp]: "length hello_data = 51"
  by (simp add: hello_data_def)

lemma length_start [simp]: "length (memory hello_start) = 131072"
  by (simp add: hello_start_def)

lemma heap_start [simp]: "heap_ptr hello_start = 4096"
  by (simp add: hello_start_def)

lemma start_data: "take 51 (memory hello_start) = hello_data"
  using splice_read [of 0 hello_data "replicate two_pages (CHR 0x00)"]
  by (simp add: hello_start_def)

lemma mem_put_in: "off + length bs \<le> length m \<Longrightarrow> mem_put off bs m = Inr (splice off bs m)"
  by (simp add: mem_put_def)

lemma hello_pass_string:
  assumes h: "heap_ptr g = of_nat h" and small: "h + length s < 2 ^ 31" and m: "length (memory g) = 131072"
  shows "pass_string hello_engine what g s =
     (if h + length s \<le> 131072
      then Some (Inr (of_nat h, g\<lparr>heap_ptr := of_nat (h + length s), memory := splice h s (memory g)\<rparr>))
      else Some (Inl (''writing '' @ what @ '' into guest memory failed: '' @ ''out of bounds memory access'')))"
proof -
  have "unat (of_nat h :: u32) = h" using small by (simp add: unat_of_nat)
  then have "unat (ptr_usize (of_nat h)) = h" using small by (simp add: ptr_usize_low)
  then show ?thesis
    using h m by (simp add: pass_string_def hello_engine_def hello_alloc_def len_i32_def mem_put_def)
qed

lemma hello_handle_result:
  assumes h: "heap_ptr g = of_nat b" and m: "length (memory g) = 131072"
    and path: "pp + length path \<le> b" "take (length path) (drop pp (memory g)) = path"
    and data: "51 \<le> b" "take 51 (memory g) = hello_data" and small: "b + 53 + length path < 2 ^ 32"
  shows "hello_handle g (mp, ml, of_nat pp, of_nat (length path)) =
    (if b + 53 + length path \<le> 131072
     then Inr (pack (of_nat b) (of_nat (53 + length path)), g\<lparr>heap_ptr := of_nat (b + 53 + length path),
            memory := splice b ([CHR 0xC8, CHR 0x00] @ hello_data @ path) (memory g)\<rparr>)
     else Inl ''out of bounds memory access'')"
proof -
  let ?m = "memory g" and ?hd = "[CHR 0xC8, CHR 0x00]"
  let ?m1 = "splice b ?hd ?m" and ?m2 = "splice b (?hd @ hello_data) ?m"
  have u: "unat (of_nat k :: u32) = k" if "k < 2 ^ 32" for k using that by (simp add: unat_of_nat)
  have w: "(of_nat b :: u32) + 2 = of_nat (b + 2)" "(of_nat b :: u32) + (2 + 51) = of_nat (b + 53)"
    "(2 :: u32) + (51 + of_nat (length path)) = of_nat (53 + length path)"
    "of_nat b + (of_nat (53 + length path) :: u32) = of_nat (b + 53 + length path)" by simp_all
  have hd: "[char_of (unat (200 :: u16) mod 256), char_of (unat (200 :: u16) div 256)] = ?hd" by simp code_simp
  have s: "store16 (of_nat b) 200 ?m = mem_put b ?hd ?m"
    using small by (simp only: store16_def hd u)
  have c1: "memory_copy (of_nat (b + 2)) 0 51 ?m1 = mem_put (b + 2) hello_data ?m1" if "b + 2 \<le> 131072"
  proof -
    have "take 51 (drop 0 ?m1) = take 51 (drop 0 ?m)"
      using data(1) that m by (intro splice_read_before) simp_all
    moreover have "unat (of_nat (b + 2) :: u32) = b + 2" using small by (intro u) simp
    ultimately show ?thesis using data(2) that m
      by (simp only: memory_copy_def) (simp add: mem_get_def)
  qed
  have adj1: "splice (b + 2) hello_data ?m1 = ?m2" if "b + 53 \<le> 131072"
    using splice_adjacent [of b ?hd hello_data ?m] that m by simp
  have c2: "memory_copy (of_nat (b + 53)) (of_nat pp) (of_nat (length path)) ?m2 = mem_put (b + 53) path ?m2"
    if "b + 53 \<le> 131072"
  proof -
    have "take (length path) (drop pp ?m2) = take (length path) (drop pp ?m)"
      using path(1) that m by (intro splice_read_before) simp_all
    then show ?thesis using small path that m by (simp add: memory_copy_def mem_get_def u del: of_nat_add)
  qed
  have adj2: "splice (b + 53) path ?m2 = splice b (?hd @ hello_data @ path) ?m" if "b + 53 + length path \<le> 131072"
    using splice_adjacent [of b "?hd @ hello_data" path ?m] that m by simp
  obtain b2 b53 t e where k: "b2 = b + 2" "b53 = b + 53" "t = 53 + length path" "e = b + 53 + length path" by blast
  have step: "hello_handle g (mp, ml, of_nat pp, of_nat (length path)) =
     (case mem_put b ?hd ?m of Inl e \<Rightarrow> Inl e
      | Inr m \<Rightarrow> (case memory_copy (of_nat b2) 0 51 m of Inl e \<Rightarrow> Inl e
         | Inr m \<Rightarrow> (case memory_copy (of_nat b53) (of_nat pp) (of_nat (length path)) m of Inl e \<Rightarrow> Inl e
            | Inr m \<Rightarrow> Inr (pack (of_nat b) (of_nat t), g\<lparr>heap_ptr := of_nat e, memory := m\<rparr>))))"
    unfolding hello_handle_def hello_alloc_def Let_def h prod.case w pack_def k by (simp add: s)
  note c = c1 [folded k] adj1 [folded k] c2 [folded k] adj2 [folded k]
  consider "131072 < b2" | "b2 \<le> 131072" "131072 < b53" | "b53 \<le> 131072" "131072 < e" | "e \<le> 131072"
    by linarith
  then have "hello_handle g (mp, ml, of_nat pp, of_nat (length path)) =
    (if e \<le> 131072
     then Inr (pack (of_nat b) (of_nat t), g\<lparr>heap_ptr := of_nat e,
            memory := splice b (?hd @ hello_data @ path) ?m\<rparr>)
     else Inl ''out of bounds memory access'')"
  proof cases
    case 1
    then show ?thesis using m k by (simp add: step mem_put_def)
  next
    case 2
    then have "mem_put b2 hello_data ?m1 = Inl ''out of bounds memory access''" using m k by (simp add: mem_put_def)
    then show ?thesis using 2 m k(1,2,4) c(1) by (simp add: step mem_put_in)
  next
    case 3
    then have "mem_put b53 path ?m2 = Inl ''out of bounds memory access''" using m k by (simp add: mem_put_def)
    then show ?thesis using 3 m k(1,2,4) c by (simp add: step mem_put_in)
  next
    case 4
    then show ?thesis using m k(1,2,4) c by (simp add: step mem_put_in)
  qed
  then show ?thesis by (simp only: k)
qed

lemma hello_cases:
  assumes "length meth < 2 ^ 29" and "length path < 2 ^ 29"
  shows "(4096 + length meth + 2 * length path + 53 \<le> 131072 \<longrightarrow>
      invoke hello_engine r meth path = Some (Inr (200, hello_data @ path))) \<and>
    (131072 < 4096 + length meth + 2 * length path + 53 \<longrightarrow>
      (\<exists>e. invoke hello_engine r meth path = Some (Inl e)))"
proof -
  let ?a = "4096 + length meth" let ?b = "?a + length path"
  let ?m1 = "splice 4096 meth (memory hello_start)" let ?m2 = "splice ?a path ?m1"
  let ?g1 = "\<lparr>heap_ptr = of_nat ?a, memory = ?m1\<rparr>" let ?g2 = "\<lparr>heap_ptr = of_nat ?b, memory = ?m2\<rparr>"
  have p1: "pass_string hello_engine ''method'' hello_start meth =
      (if ?a \<le> 131072 then Some (Inr (4096, ?g1)) else
       Some (Inl (''writing '' @ ''method'' @ '' into guest memory failed: '' @ ''out of bounds memory access'')))"
    using hello_pass_string [of hello_start 4096 meth "''method''"] assms by simp
  have p2: "pass_string hello_engine ''path'' ?g1 path =
      (if ?b \<le> 131072 then Some (Inr (of_nat ?a, ?g2)) else
       Some (Inl (''writing '' @ ''path'' @ '' into guest memory failed: '' @ ''out of bounds memory access'')))"
    if "?a \<le> 131072"
    using hello_pass_string [of ?g1 ?a path "''path''"] assms that by (simp del: of_nat_add)
  have h: "hello_handle ?g2 (4096, of_nat (length meth), of_nat ?a, of_nat (length path)) =
     (if ?b + 53 + length path \<le> 131072
      then Inr (pack (of_nat ?b) (of_nat (53 + length path)), ?g2\<lparr>heap_ptr := of_nat (?b + 53 + length path),
            memory := splice ?b ([CHR 0xC8, CHR 0x00] @ hello_data @ path) ?m2\<rparr>)
      else Inl ''out of bounds memory access'')" if "?b \<le> 131072"
  proof -
    have "take 51 (memory ?g2) = hello_data"
      using splice_read_before [of 0 51 ?a path ?m1] splice_read_before [of 0 51 4096 meth "memory hello_start"]
        that start_data by simp
    moreover have "take (length path) (drop ?a (memory ?g2)) = path"
      using splice_read [of ?a path ?m1] that by simp
    ultimately show ?thesis
      using hello_handle_result [of ?g2 ?b ?a path 4096 "of_nat (length meth)"] assms that
      by (simp del: of_nat_add)
  qed
  have run: "invoke hello_engine r meth path =
      attempt_bind (pass_string hello_engine ''method'' hello_start meth) (\<lambda>(mp, g).
      attempt_bind (pass_string hello_engine ''path'' g path) (\<lambda>(pp, g).
      attempt_bind (context_msg ''handle call failed: ''
        (Some (hello_handle g (mp, len_i32 meth, pp, len_i32 path)))) (\<lambda>(packed, g).
      read_response hello_engine g packed)))"
    by (simp add: invoke_def hello_engine_def)
  let ?r = "[CHR 0xC8, CHR 0x00] @ hello_data @ path"
  have fits: "invoke hello_engine r meth path = Some (Inr (200, hello_data @ path))"
    if fit: "?b + 53 + length path \<le> 131072"
  proof -
    let ?g3 = "?g2\<lparr>heap_ptr := of_nat (?b + 53 + length path), memory := splice ?b ?r ?m2\<rparr>"
    have u: "unat (of_nat ?b :: u32) = ?b" "unat (of_nat (53 + length path) :: u32) = 53 + length path"
      using assms by (simp_all add: unat_of_nat del: of_nat_add)
    have len: "length (memory ?g3) = 131072" using fit by simp
    have reply: "take (53 + length path) (drop ?b (memory ?g3)) = ?r"
      using splice_read [of ?b ?r ?m2] fit by simp
    have at: "memory ?g3 ! (?b + k) = ?r ! k" if "k < 53 + length path" for k
      using arg_cong [OF reply, of "\<lambda>x. x ! k"] that len fit by simp
    have "take (53 + length path - 2) (drop (?b + 2) (memory ?g3)) = drop 2 ?r"
      using arg_cong [OF reply, of "drop 2"] by (simp add: drop_take ac_simps)
    moreover have "memory ?g3 ! ?b = CHR 0xC8" "memory ?g3 ! (?b + 1) = CHR 0x00"
      using at [of 0] at [of 1] by simp_all
    moreover have "read_response hello_engine ?g3 (pack (of_nat ?b) (of_nat (53 + length path))) =
        Some (Inr (u16_from_le_bytes (memory ?g3 ! ?b) (memory ?g3 ! (?b + 1)),
          take (53 + length path - 2) (drop (?b + 2) (memory ?g3))))"
      using hello.read_response_in [of "of_nat (53 + length path)" "of_nat ?b" ?g3] fit len
      by (simp only: u)
    moreover have "u16_from_le_bytes (CHR 0xC8) (CHR 0x00) = 200" by code_simp
    ultimately have "read_response hello_engine ?g3 (pack (of_nat ?b) (of_nat (53 + length path))) =
        Some (Inr (200, hello_data @ path))" by simp
    then show ?thesis using fit p1 p2 h by (simp add: run len_i32_def del: of_nat_add)
  qed
  have long: "\<exists>e. invoke hello_engine r meth path = Some (Inl e)" if "131072 < ?b + 53 + length path"
  proof (cases "?a \<le> 131072 \<and> ?b \<le> 131072")
    case True
    then show ?thesis using that p1 p2 h by (simp add: run len_i32_def del: of_nat_add)
  next
    case False
    then show ?thesis using p1 p2 by (cases "?a \<le> 131072") (simp_all add: run del: of_nat_add)
  qed
  show ?thesis using fits long by simp
qed

text \<open>
  C19: The example handler answers every request that fits: as long as the method, two copies
  of the path and the 53 bytes of the reply fit above the bump pointer in the two pages, the
  reply is status 200 with the greeting and the path, byte for byte; a longer request is an
  error (which the server answers with 500), never a truncated reply.
\<close>

theorem hello_invoke:
  assumes "length meth < 2 ^ 29" and "length path < 2 ^ 29"
  shows "(4096 + length meth + 2 * length path + 53 \<le> 131072 \<longrightarrow>
      invoke hello_engine r meth path =
        Some (Inr (200, ''Hello from a sandboxed WASM module! You requested: '' @ path))) \<and>
    (131072 < 4096 + length meth + 2 * length path + 53 \<longrightarrow>
      (\<exists>e. invoke hello_engine r meth path = Some (Inl e)))"
  using hello_cases [OF assms, of r] by (simp add: hello_data_def)

definition hello_route :: "unit wasm_route" where
  "hello_route = \<lparr>wr_prefix = ''/wasm'', wr_module = ()\<rparr>"

theorem hello_invoke_witness:
  "invoke hello_engine hello_route ''GET'' ''/wasm/x'' =
     Some (Inr (200, ''Hello from a sandboxed WASM module! You requested: /wasm/x''))"
  using hello_invoke [of "''GET''" "''/wasm/x''" hello_route] by simp

theorem invoke_returns_witness: "\<exists>v. invoke hello_engine hello_route ''GET'' ''/wasm/x'' = Some v"
  by (rule invoke_returns [OF hello_guest_returns])

theorem invoke_response_witness:
  "\<exists>p l g. handled hello_engine hello_route ''GET'' ''/x'' = Some (Inr (pack p l, g)) \<and>
     (length (memory g) < unat p + unat l \<longrightarrow>
        (\<exists>e. invoke hello_engine hello_route ''GET'' ''/x'' = Some (Inl e)))"
proof -
  have "invoke hello_engine hello_route ''GET'' ''/x'' = Some (Inr (200, hello_data @ ''/x''))"
    using hello_cases [of "''GET''" "''/x''" hello_route] by simp
  then obtain packed g where h: "handled hello_engine hello_route ''GET'' ''/x'' = Some (Inr (packed, g))"
    by (auto simp: invoke_handled attempt_bind_def split: option.splits sum.splits)
  obtain p l where "packed = pack p l" using pack_surj by blast
  then have h: "handled hello_engine hello_route ''GET'' ''/x'' = Some (Inr (pack p l, g))" using h by simp
  then show ?thesis using invoke_response [OF hello_guest_memory h] by blast
qed

end
