(* ===== verification/Logging.thy ===== *)
theory Logging
  imports Rust_Io
begin

section \<open>Structured logging (src/logging/mod.rs)\<close>

text \<open>
  The two log entry structs, the logger and its \<open>access\<close>, \<open>error\<close> and \<open>write_json\<close>. The
  JSON serializer is the third-party crate \<open>serde_json\<close>, a parameter \<open>to_json\<close>; the clock is
  the argument \<open>now\<close>. \<open>write_json\<close> runs under the logger's mutex, so concurrent calls are
  some sequence of whole calls.
\<close>

record access_log_entry =
  ae_timestamp :: u64
  ae_level :: string
  ae_event :: string
  ae_method :: string
  ae_path :: string
  ae_status :: u16
  ae_peer :: string
  ae_server :: string

record error_log_entry =
  ee_timestamp :: u64
  ee_level :: string
  ee_event :: string
  ee_message :: string
  ee_server :: string

datatype log_entry = AccessEntry access_log_entry | ErrorEntry error_log_entry

record logger =
  access_path :: string
  error_path :: string

text \<open>
  The world the logger writes to: the contents of files, which of them can be opened for
  appending, how many bytes of a write the disk takes, the directories created, standard output
  and whether it can be written, and whether a call has panicked: \<open>print!\<close> panics if standard
  output is closed, while the mutex is held, so that every later call panics at the poisoned
  lock (a release build does not get there: it aborts at the first panic).
\<close>

record log_world =
  log_files :: "string \<Rightarrow> bytes"
  can_append :: "string \<Rightarrow> bool"
  disk_takes :: "string \<Rightarrow> bytes \<Rightarrow> nat"
  made_dirs :: "component list list"
  stdout :: bytes
  stdout_open :: bool
  panicked :: bool

definition ensure_parent_dir :: "string \<Rightarrow> log_world \<Rightarrow> log_world" where
  "ensure_parent_dir path w =
     (case parent path of
        None \<Rightarrow> w
      | Some d \<Rightarrow> if d \<noteq> [] then w\<lparr>made_dirs := made_dirs w @ [d]\<rparr> else w)"

definition logger_new :: "string \<Rightarrow> string \<Rightarrow> log_world \<Rightarrow> logger \<times> log_world" where
  "logger_new apath epath w =
     (\<lparr>access_path = apath, error_path = epath\<rparr>, ensure_parent_dir epath (ensure_parent_dir apath w))"

definition write_json :: "(log_entry \<Rightarrow> string option) \<Rightarrow> string \<Rightarrow> log_entry \<Rightarrow> log_world \<Rightarrow> log_world" where
  "write_json to_json path entry w =
     (case to_json entry of
        None \<Rightarrow> w
      | Some s \<Rightarrow>
          if panicked w then w
          else
          (let line = s @ [LF];
               w = (if can_append w path
                    then w\<lparr>log_files := (log_files w)(path := log_files w path @ take (disk_takes w path line) line)\<rparr>
                    else w)
           in if stdout_open w then w\<lparr>stdout := stdout w @ line\<rparr> else w\<lparr>panicked := True\<rparr>))"

definition access_entry :: "u64 \<Rightarrow> string \<Rightarrow> string \<Rightarrow> u16 \<Rightarrow> string \<Rightarrow> log_entry" where
  "access_entry now meth path status peer = AccessEntry \<lparr>ae_timestamp = now, ae_level = ''INFO'',
     ae_event = ''http_request'', ae_method = meth, ae_path = path, ae_status = status, ae_peer = peer,
     ae_server = ''NWarp''\<rparr>"

definition error_entry :: "u64 \<Rightarrow> string \<Rightarrow> log_entry" where
  "error_entry now msg = ErrorEntry \<lparr>ee_timestamp = now, ee_level = ''ERROR'', ee_event = ''error'',
     ee_message = msg, ee_server = ''NWarp''\<rparr>"

definition access :: "(log_entry \<Rightarrow> string option) \<Rightarrow> u64 \<Rightarrow> logger \<Rightarrow> string \<Rightarrow> string \<Rightarrow> u16 \<Rightarrow> string \<Rightarrow> log_world \<Rightarrow> log_world" where
  "access to_json now lg meth path status peer w =
     write_json to_json (access_path lg) (access_entry now meth path status peer) w"

definition error :: "(log_entry \<Rightarrow> string option) \<Rightarrow> u64 \<Rightarrow> logger \<Rightarrow> string \<Rightarrow> log_world \<Rightarrow> log_world" where
  "error to_json now lg msg w = write_json to_json (error_path lg) (error_entry now msg) w"

text \<open>
  The calls a component makes on the logger, as data: the connection handlers return the list
  of their calls in order, and \<open>run_log\<close> performs them.
\<close>

datatype log_call = LAccess string string u16 string | LError string

fun run_call :: "(log_entry \<Rightarrow> string option) \<Rightarrow> logger \<Rightarrow> u64 \<times> log_call \<Rightarrow> log_world \<Rightarrow> log_world" where
  "run_call to_json lg (now, LAccess meth path status peer) w = access to_json now lg meth path status peer w"
| "run_call to_json lg (now, LError msg) w = error to_json now lg msg w"

definition run_log :: "(log_entry \<Rightarrow> string option) \<Rightarrow> logger \<Rightarrow> (u64 \<times> log_call) list \<Rightarrow> log_world \<Rightarrow> log_world" where
  "run_log to_json lg calls w = fold (run_call to_json lg) calls w"

subsection \<open>Line-delimited output\<close>

text \<open>
  What is assumed of the serializer, as its documentation has it: the compact form escapes
  control characters inside strings and ends with a brace, so it is a non-empty line.
\<close>

definition json_ok :: "(log_entry \<Rightarrow> string option) \<Rightarrow> bool" where
  "json_ok to_json = (\<forall>e s. to_json e = Some s \<longrightarrow> LF \<notin> set s \<and> s \<noteq> [] \<and> last s \<noteq> CR)"

fun call_file :: "logger \<Rightarrow> log_call \<Rightarrow> string" where
  "call_file lg (LAccess _ _ _ _) = access_path lg"
| "call_file lg (LError _) = error_path lg"

fun call_entry :: "u64 \<times> log_call \<Rightarrow> log_entry" where
  "call_entry (now, LAccess meth path status peer) = access_entry now meth path status peer"
| "call_entry (now, LError msg) = error_entry now msg"

lemma run_call_write: "run_call to_json lg c w = write_json to_json (call_file lg (snd c)) (call_entry c) w"
  by (cases c, cases "snd c") (auto simp: access_def error_def)

definition outputs_ok :: "log_world \<Rightarrow> bool" where
  "outputs_ok w = ((\<forall>p b. can_append w p \<and> length b \<le> disk_takes w p b) \<and> stdout_open w \<and> \<not> panicked w)"

lemma write_json_file:
  assumes "outputs_ok w"
  shows "log_files (write_json to_json p e w) q =
      log_files w q @ (if q = p then (case to_json e of None \<Rightarrow> [] | Some s \<Rightarrow> s @ [LF]) else [])"
    and "stdout (write_json to_json p e w) = stdout w @ (case to_json e of None \<Rightarrow> [] | Some s \<Rightarrow> s @ [LF])"
    and "outputs_ok (write_json to_json p e w)"
  using assms by (auto simp: write_json_def outputs_ok_def Let_def split: option.splits)

definition json_line :: "(log_entry \<Rightarrow> string option) \<Rightarrow> u64 \<times> log_call \<Rightarrow> string list" where
  "json_line to_json c = (case to_json (call_entry c) of None \<Rightarrow> [] | Some s \<Rightarrow> [s])"

definition json_lines :: "(log_entry \<Rightarrow> string option) \<Rightarrow> (u64 \<times> log_call) list \<Rightarrow> string list" where
  "json_lines to_json calls = concat (map (json_line to_json) calls)"

lemma json_lines_simps [simp]:
  "json_lines to_json [] = []"
  "json_lines to_json (c # cs) = json_line to_json c @ json_lines to_json cs"
  by (simp_all add: json_lines_def)

lemma run_log_files:
  "outputs_ok w \<Longrightarrow>
     log_files (run_log to_json lg calls w) q =
       log_files w q @ concat (map (\<lambda>s. s @ [LF])
         (json_lines to_json (filter (\<lambda>c. call_file lg (snd c) = q) calls))) \<and>
     stdout (run_log to_json lg calls w) = stdout w @ concat (map (\<lambda>s. s @ [LF]) (json_lines to_json calls))"
proof (induction calls arbitrary: w)
  case (Cons c calls)
  let ?w = "write_json to_json (call_file lg (snd c)) (call_entry c) w"
  have "run_log to_json lg (c # calls) w = run_log to_json lg calls ?w"
    by (simp add: run_log_def run_call_write)
  moreover note Cons.IH [of ?w] write_json_file [OF Cons.prems]
  ultimately show ?case
    by (auto simp: json_line_def split: option.splits)
qed (simp add: run_log_def)

lemma lines_LF: "LF \<notin> set v \<Longrightarrow> lines (v @ LF # s) = strip_cr v # lines s"
  using lines_from_no_LF [of v "[]" "LF # s"] by (simp add: lines_def)

lemma lines_concat:
  "\<forall>l \<in> set ls. LF \<notin> set l \<and> l \<noteq> [] \<and> last l \<noteq> CR \<Longrightarrow> lines (concat (map (\<lambda>s. s @ [LF]) ls)) = ls"
proof (induction ls)
  case Nil
  show ?case by (simp add: lines_def)
next
  case (Cons l ls)
  then show ?case by (simp add: lines_LF strip_cr_def)
qed

lemma json_lines_ok:
  assumes "json_ok to_json" and "l \<in> set (json_lines to_json cs)"
  shows "LF \<notin> set l \<and> l \<noteq> [] \<and> last l \<noteq> CR"
proof -
  obtain c where "to_json (call_entry c) = Some l"
    using assms(2) by (auto simp: json_lines_def json_line_def split: option.splits)
  then show ?thesis using assms(1) by (simp add: json_ok_def)
qed

text \<open>
  C35: Line-delimited logs: starting from empty files on a disk that takes every write and with
  a standard output that can be written, after any sequence of logger calls (any interleaving of the calls of concurrent tasks) the lines
  of a log file are exactly the serialized entries of the calls that go to that file, in call
  order, and standard output has all of them; no logged path, method or message can forge or
  split a line.
\<close>

theorem log_lines:
  assumes "json_ok to_json" and "outputs_ok w" and "log_files w q = []" and "stdout w = []"
  shows "lines (log_files (run_log to_json lg calls w) q) =
      json_lines to_json (filter (\<lambda>c. call_file lg (snd c) = q) calls) \<and>
    lines (stdout (run_log to_json lg calls w)) = json_lines to_json calls"
  using run_log_files [OF assms(2), of to_json lg calls q] assms(3,4) json_lines_ok [OF assms(1)]
  by (simp add: lines_concat)

text \<open>
  With a closed standard output the first line still reaches its file and is the last one that
  does.
\<close>

lemma panicked_stops: "panicked w \<Longrightarrow> run_log to_json lg calls w = w"
proof (induction calls)
  case (Cons c calls)
  then have "write_json to_json p e w = w" for p e by (simp add: write_json_def split: option.split)
  then show ?case using Cons by (simp add: run_log_def run_call_write)
qed (simp add: run_log_def)

lemma closed_stdout_stops:
  assumes "\<not> stdout_open w" and "to_json (call_entry c) \<noteq> None"
  shows "run_log to_json lg (c # calls) w = run_log to_json lg [c] w \<and> panicked (run_log to_json lg [c] w) = True"
proof -
  have "panicked (write_json to_json (call_file lg (snd c)) (call_entry c) w)"
    using assms by (auto simp: write_json_def Let_def)
  then show ?thesis
    using panicked_stops [of "write_json to_json (call_file lg (snd c)) (call_entry c) w" to_json lg]
    by (simp add: run_log_def run_call_write)
qed

text \<open>A concrete serializer for the witness, escaping quotes, backslashes and control characters.\<close>

definition json_escape_char :: "char \<Rightarrow> string" where
  "json_escape_char c =
     (if c = CHR 0x22 \<or> c = CHR 0x5C then [CHR 0x5C, c]
      else if byte c < 32 then CHR 0x5C # ''u00'' @ show_nat (byte c) else [c])"

definition json_str :: "string \<Rightarrow> string" where
  "json_str s = CHR 0x22 # concat (map json_escape_char s) @ [CHR 0x22]"

fun sample_json :: "log_entry \<Rightarrow> string option" where
  "sample_json (AccessEntry e) = Some (CHR ''{'' # json_str (ae_method e) @ '','' @ json_str (ae_path e) @
     '','' @ show_word (ae_status e) @ ''}'')"
| "sample_json (ErrorEntry e) = Some (CHR ''{'' # json_str (ee_message e) @ ''}'')"

lemma json_str_no_LF: "LF \<notin> set (json_str s)"
  by (auto simp: json_str_def json_escape_char_def show_nat_not_in split: if_splits)

lemma sample_json_ok: "json_ok sample_json"
  unfolding json_ok_def
proof (intro allI impI)
  fix e s assume "sample_json e = Some s"
  then show "LF \<notin> set s \<and> s \<noteq> [] \<and> last s \<noteq> CR"
    by (cases e) (auto simp: json_str_no_LF show_nat_not_in)
qed

definition empty_log_world :: log_world where
  "empty_log_world = \<lparr>log_files = (\<lambda>_. []), can_append = (\<lambda>_. True), disk_takes = (\<lambda>_ b. length b),
     made_dirs = [], stdout = [], stdout_open = True, panicked = False\<rparr>"

theorem log_lines_witness:
  "lines (log_files (run_log sample_json \<lparr>access_path = ''a'', error_path = ''e''\<rparr>
      [(1, LAccess ''GET'' (''/x'' @ [LF] @ ''y'') 200 ''p''), (2, LError ''down'')] empty_log_world) ''e'') =
   json_lines sample_json [(2, LError ''down'')]"
  using log_lines [OF sample_json_ok, of empty_log_world "''e''" "\<lparr>access_path = ''a'', error_path = ''e''\<rparr>"
      "[(1, LAccess ''GET'' (''/x'' @ [LF] @ ''y'') 200 ''p''), (2, LError ''down'')]"]
  by (simp add: empty_log_world_def outputs_ok_def)

end
