(* ===== verification/Connection.thy ===== *)
theory Connection
  imports Router Proxy_Relay Hello_Wasm Logging
begin

section \<open>One HTTP/1.x connection (src/server/connection.rs)\<close>

text \<open>
  \<open>handle_generic\<close>: parse, then proxy, WASM handler or static file, in this order. The
  result is what the client's stream has received, the calls made on the logger, in order,
  and the proxy table with its counters; it is \<open>None\<close> if the task never ends, which an
  incomplete request head, a dial or a write to an upstream without an answer, a guest function
  and a client that stops reading can all cause (what such a task did before it stopped is not part
  of the result). The two tables are the ones the two \<open>load\<close>s
  returned.
\<close>

text \<open>The outside world of a request: standard library parameters, network, files, WASM engine.\<close>

record ('m, 'g) world =
  the_std :: std_params
  the_net :: network
  the_fs :: "nat \<Rightarrow> filesystem"
  the_wasm :: "('m, 'g) wasmi"

record conn_end =
  client :: sink
  logged :: "log_call list"
  table_after :: proxy_table

definition wasm_status_text :: "u16 \<Rightarrow> string" where
  "wasm_status_text code =
     (if code = 200 then ''OK''
      else if code = 201 then ''Created''
      else if code = 204 then ''No Content''
      else if code = 301 then ''Moved Permanently''
      else if code = 302 then ''Found''
      else if code = 400 then ''Bad Request''
      else if code = 401 then ''Unauthorized''
      else if code = 403 then ''Forbidden''
      else if code = 404 then ''Not Found''
      else if code = 405 then ''Method Not Allowed''
      else if code = 500 then ''Internal Server Error''
      else ''OK'')"

text \<open>
  \<open>let _ = resp.send(stream).await\<close>: the outcome of the send is dropped, but it must come. The
  calls on the logger are those of the whole handler.
\<close>

definition replies :: "response \<Rightarrow> sink \<Rightarrow> log_call list \<Rightarrow> proxy_table \<Rightarrow> conn_end option" where
  "replies resp stream calls pt =
     (case send resp stream of
        (Pending, _) \<Rightarrow> None
      | (Ready _, stream) \<Rightarrow> Some \<lparr>client = stream, logged = calls, table_after = pt\<rparr>)"

definition serve_proxy :: "('m, 'g) world \<Rightarrow> config \<Rightarrow> request \<Rightarrow> string \<Rightarrow> sink \<Rightarrow> proxy_table \<Rightarrow>
    nat \<times> proxy_route \<Rightarrow> conn_end option" where
  "serve_proxy W cfg req peer stream pt = (\<lambda>(i, r).
     (case relay (the_std W) (the_net W) req r stream peer of (result, r, stream) \<Rightarrow>
      (let pt = set_route i r pt in
       case result of
         Pending \<Rightarrow> None
       | Ready (Inr status) \<Rightarrow>
           Some \<lparr>client = stream, logged = [LAccess (req_method req) (req_path req) status peer], table_after = pt\<rparr>
       | Ready (Inl e) \<Rightarrow>
           if err_kind e = NotConnected then
             replies (service_unavailable (server_name cfg)) stream
               [LError (''no healthy upstream for '' @ req_method req @ '' '' @ req_path req),
                LAccess (req_method req) (req_path req) 503 peer] pt
           else
             replies (bad_gateway (server_name cfg)) stream
               [LError (''proxy upstream error for '' @ req_method req @ '' '' @ req_path req @
                        '' -> '' @ err_msg e),
                LAccess (req_method req) (req_path req) 502 peer] pt)))"

definition wasm_response :: "config \<Rightarrow> u16 \<Rightarrow> bytes \<Rightarrow> response" where
  "wasm_response cfg status bs =
     set_body bs ''text/plain; charset=utf-8'' (new status (wasm_status_text status) (server_name cfg))"

definition serve_wasm :: "('m, 'g) world \<Rightarrow> config \<Rightarrow> request \<Rightarrow> string \<Rightarrow> sink \<Rightarrow> proxy_table \<Rightarrow>
    'm wasm_route \<Rightarrow> conn_end option" where
  "serve_wasm W cfg req peer stream pt r =
     (case invoke (the_wasm W) r (req_method req) (req_path req) of
        None \<Rightarrow> None
      | Some (Inr (status, bs)) \<Rightarrow>
          replies (wasm_response cfg status bs) stream [LAccess (req_method req) (req_path req) status peer] pt
      | Some (Inl e) \<Rightarrow>
          replies (internal_error (server_name cfg)) stream
            [LError (''WASM handler error for '' @ req_method req @ '' '' @ req_path req @ '' -> '' @ e),
             LAccess (req_method req) (req_path req) 500 peer] pt)"

definition serve_static :: "('m, 'g) world \<Rightarrow> config \<Rightarrow> request \<Rightarrow> string \<Rightarrow> sink \<Rightarrow> proxy_table \<Rightarrow>
    conn_end option" where
  "serve_static W cfg req peer stream pt =
     (let response = route (the_fs W) req cfg;
          access_call = LAccess (req_method req) (req_path req) (status_code response) peer
      in case send response stream of
           (Pending, _) \<Rightarrow> None
         | (Ready (Inr _), stream) \<Rightarrow> Some \<lparr>client = stream, logged = [access_call], table_after = pt\<rparr>
         | (Ready (Inl e), stream) \<Rightarrow>
             Some \<lparr>client = stream,
               logged = [access_call, LError (''failed to write response to '' @ peer @ '': '' @ err_msg e)],
               table_after = pt\<rparr>)"

definition handle_generic :: "('m, 'g) world \<Rightarrow> config \<Rightarrow> instream \<Rightarrow> sink \<Rightarrow> string \<Rightarrow> proxy_table \<Rightarrow>
    'm wasm_table \<Rightarrow> conn_end option" where
  "handle_generic W cfg input stream peer pt wt =
     (case parse (the_std W) input of
        Pending \<Rightarrow> None
      | Ready (Inl e) \<Rightarrow>
          replies (internal_error (server_name cfg)) stream
            [LError (''failed to parse request from '' @ peer @ '': '' @ err_msg e)] pt
      | Ready (Inr (req, _)) \<Rightarrow>
          (case proxy_match_entry pt (req_path req) of
             Some entry \<Rightarrow> serve_proxy W cfg req peer stream pt entry
           | None \<Rightarrow>
               (case wasm_match_route wt (req_path req) of
                  Some wr \<Rightarrow> serve_wasm W cfg req peer stream pt wr
                | None \<Rightarrow> serve_static W cfg req peer stream pt)))"

definition handle :: "('m, 'g) world \<Rightarrow> config \<Rightarrow> string io_result \<Rightarrow> instream \<Rightarrow> sink \<Rightarrow> proxy_table \<Rightarrow>
    'm wasm_table \<Rightarrow> conn_end option" where
  "handle W cfg peer_addr input stream pt wt =
     (let peer = (case peer_addr of Inr a \<Rightarrow> a | Inl _ \<Rightarrow> ''unknown'')
      in handle_generic W cfg input stream peer pt wt)"

lemmas serve_defs = serve_proxy_def serve_wasm_def serve_static_def

subsection \<open>Precedence\<close>

text \<open>Every handler leaves the table alone but for the route it picked on.\<close>

lemma replies_table: "replies resp s calls pt = map_option (\<lambda>c. c\<lparr>table_after := pt\<rparr>) (replies resp s calls pt')"
  by (simp add: replies_def split: prod.split poll.split)

text \<open>A proxied answer depends on the matched route only, wherever it stands in whichever table.\<close>

lemma serve_proxy_alone:
  "serve_proxy W cfg req peer s pt (i, r) =
     map_option (\<lambda>c. c\<lparr>table_after := set_route i (hd (pt_routes (table_after c))) pt\<rparr>)
       (serve_proxy (W\<lparr>the_fs := fs', the_wasm := wasm'\<rparr>) cfg req peer s \<lparr>pt_routes = [r]\<rparr> (0, r))"
  by (auto simp: serve_proxy_def replies_def set_route_def Let_def split: prod.split poll.split sum.split)

lemma serve_wasm_alone:
  "serve_wasm W cfg req peer s pt m = map_option (\<lambda>c. c\<lparr>table_after := pt\<rparr>)
     (serve_wasm (W\<lparr>the_fs := fs', the_net := net'\<rparr>) cfg req peer s pt' m)"
  by (auto simp: serve_wasm_def replies_table [of _ _ _ pt pt'] split: option.split sum.split)

lemma serve_static_alone:
  "serve_static W cfg req peer s pt = map_option (\<lambda>c. c\<lparr>table_after := pt\<rparr>)
     (serve_static (W\<lparr>the_net := net', the_wasm := wasm'\<rparr>) cfg req peer s pt')"
  by (auto simp: serve_static_def Let_def split: prod.split poll.split sum.split)

text \<open>
  C23: Routing precedence: a request whose path starts with a proxy prefix is answered by the
  longest-prefix route alone: everything the client and the log see, and what becomes of that
  route, is what a server with this one route would give, whatever the other routes, the WASM
  table, the WASM engine and the file system are, and no other route changes. One that starts
  with no proxy prefix but with a WASM prefix is answered as by a server with this one WASM
  route, without the network or the file system. Only the others are served from files,
  without the network or the WASM engine.
\<close>

theorem routing_precedence:
  assumes "parse (the_std W) input = Ready (Inr (req, rest))"
  shows "(\<forall>r. proxy_match_route pt (req_path req) = Some r \<longrightarrow>
      (\<exists>i < length (pt_routes pt). pt_routes pt ! i = r \<and>
        handle_generic W cfg input s peer pt wt =
          map_option (\<lambda>c. c\<lparr>table_after := set_route i (hd (pt_routes (table_after c))) pt\<rparr>)
            (handle_generic (W\<lparr>the_fs := fs', the_wasm := wasm'\<rparr>) cfg input s peer \<lparr>pt_routes = [r]\<rparr> wt'))) \<and>
    (\<forall>m. proxy_match_route pt (req_path req) = None \<and> wasm_match_route wt (req_path req) = Some m \<longrightarrow>
      handle_generic W cfg input s peer pt wt =
        map_option (\<lambda>c. c\<lparr>table_after := pt\<rparr>)
          (handle_generic (W\<lparr>the_fs := fs', the_net := net'\<rparr>) cfg input s peer \<lparr>pt_routes = []\<rparr> \<lparr>wt_routes = [m]\<rparr>)) \<and>
    (proxy_match_route pt (req_path req) = None \<and> wasm_match_route wt (req_path req) = None \<longrightarrow>
      handle_generic W cfg input s peer pt wt =
        map_option (\<lambda>c. c\<lparr>table_after := pt\<rparr>)
          (handle_generic (W\<lparr>the_net := net', the_wasm := wasm'\<rparr>) cfg input s peer \<lparr>pt_routes = []\<rparr> \<lparr>wt_routes = []\<rparr>))"
proof (intro conjI allI impI)
  fix r assume m: "proxy_match_route pt (req_path req) = Some r"
  then obtain i where i: "proxy_match_entry pt (req_path req) = Some (i, r)"
    by (auto simp: proxy_match_entry_route)
  have "proxy_match_entry \<lparr>pt_routes = [r]\<rparr> (req_path req) = Some (0, r)"
    using proxy.lookup_prefix [OF m] by (simp add: proxy_match_entry_def)
  then show "\<exists>i < length (pt_routes pt). pt_routes pt ! i = r \<and>
      handle_generic W cfg input s peer pt wt =
        map_option (\<lambda>c. c\<lparr>table_after := set_route i (hd (pt_routes (table_after c))) pt\<rparr>)
          (handle_generic (W\<lparr>the_fs := fs', the_wasm := wasm'\<rparr>) cfg input s peer \<lparr>pt_routes = [r]\<rparr> wt')"
    using proxy_match_entry_nth [OF i] serve_proxy_alone [where W = W and fs' = fs' and wasm' = wasm'] assms i
    by (intro exI [of _ i]) (simp add: handle_generic_def)
next
  fix m assume m: "proxy_match_route pt (req_path req) = None \<and> wasm_match_route wt (req_path req) = Some m"
  then have "wasm_match_route \<lparr>wt_routes = [m]\<rparr> (req_path req) = Some m"
    using wasm.lookup_prefix [of wt "req_path req" m] by (simp add: wasm_match_route_def)
  then show "handle_generic W cfg input s peer pt wt = map_option (\<lambda>c. c\<lparr>table_after := pt\<rparr>)
      (handle_generic (W\<lparr>the_fs := fs', the_net := net'\<rparr>) cfg input s peer \<lparr>pt_routes = []\<rparr> \<lparr>wt_routes = [m]\<rparr>)"
    using m assms serve_wasm_alone [where W = W and fs' = fs' and net' = net' and pt = pt and pt' = "\<lparr>pt_routes = []\<rparr>"]
    by (simp add: handle_generic_def proxy_match_entry_route, simp add: proxy_match_entry_def)
next
  assume m: "proxy_match_route pt (req_path req) = None \<and> wasm_match_route wt (req_path req) = None"
  then show "handle_generic W cfg input s peer pt wt = map_option (\<lambda>c. c\<lparr>table_after := pt\<rparr>)
      (handle_generic (W\<lparr>the_net := net', the_wasm := wasm'\<rparr>) cfg input s peer \<lparr>pt_routes = []\<rparr> \<lparr>wt_routes = []\<rparr>)"
    using assms serve_static_alone [where W = W and net' = net' and wasm' = wasm' and pt = pt and pt' = "\<lparr>pt_routes = []\<rparr>"]
    by (simp add: handle_generic_def proxy_match_entry_route, simp add: proxy_match_entry_def wasm_match_route_def)
qed

subsection \<open>The log tells what the client got\<close>

text \<open>A client connection that takes everything that is written to it.\<close>

definition unbroken :: "sink \<Rightarrow> bool" where
  "unbroken s = (room s = None \<and> flush_result s = Ready (Inr ()))"

lemma send_ok: "unbroken s \<Longrightarrow> send r s = (Ready (Inr ()), s\<lparr>written := written s @ wire r\<rparr>)"
  by (simp add: unbroken_def send_unbroken)

lemma replies_ok: "unbroken s \<Longrightarrow> replies resp s calls pt =
    Some \<lparr>client = s\<lparr>written := written s @ wire resp\<rparr>, logged = calls, table_after = pt\<rparr>"
  by (simp add: replies_def send_ok)

lemma page_server [simp]:
  "resp_server_name (internal_error n) = n" "resp_server_name (bad_gateway n) = n"
  "resp_server_name (service_unavailable n) = n"
  "resp_server_name (wasm_response cfg st bs) = server_name cfg" "resp_server_name (route fs req cfg) = server_name cfg"
  by (auto simp: response_defs wasm_response_def route_def Let_def split: option.split)

lemma page_status [simp]:
  "status_code (internal_error n) = 500" "status_code (bad_gateway n) = 502"
  "status_code (service_unavailable n) = 503" "status_code (wasm_response cfg st bs) = st"
  by (simp_all add: response_defs wasm_response_def)

text \<open>One access line whose status is the one the client reads in what it received.\<close>

definition truthful :: "request \<Rightarrow> string \<Rightarrow> sink \<Rightarrow> conn_end \<Rightarrow> bool" where
  "truthful req peer s c = (\<exists>bytes status.
     written (client c) = written s @ bytes \<and> extract_status bytes = status \<and>
     filter (\<lambda>l. case l of LAccess _ _ _ _ \<Rightarrow> True | LError _ \<Rightarrow> False) (logged c) =
       [LAccess (req_method req) (req_path req) status peer])"

lemma truthfulI:
  "written (client c) = written s @ bytes \<Longrightarrow>
   filter (\<lambda>l. case l of LAccess _ _ _ _ \<Rightarrow> True | LError _ \<Rightarrow> False) (logged c) =
     [LAccess (req_method req) (req_path req) (extract_status bytes) peer] \<Longrightarrow> truthful req peer s c"
  by (auto simp: truthful_def)

lemma relay_unbroken:
  "unbroken s \<Longrightarrow> relay std net req r s peer =
     (case fetch_from_upstream std net req r peer of
        (Pending, r) \<Rightarrow> (Pending, r, s)
      | (Ready (Inl e), r) \<Rightarrow> (Ready (Inl e), r, s)
      | (Ready (Inr bs), r) \<Rightarrow> (Ready (Inr (extract_status bs)), r, s\<lparr>written := written s @ bs\<rparr>))"
  by (auto simp: relay_def unbroken_def flush_def split: prod.split sum.split poll.split)

text \<open>What a proxied request ends with, for a client that takes its reply.\<close>

lemma serve_proxy_unbroken:
  assumes "unbroken s"
  shows "serve_proxy W cfg req peer s pt (i, r) =
    (case fetch_from_upstream (the_std W) (the_net W) req r peer of
       (Pending, _) \<Rightarrow> None
     | (Ready (Inr bs), r') \<Rightarrow>
         Some \<lparr>client = s\<lparr>written := written s @ bs\<rparr>,
               logged = [LAccess (req_method req) (req_path req) (extract_status bs) peer], table_after = set_route i r' pt\<rparr>
     | (Ready (Inl e), r') \<Rightarrow>
         Some (if err_kind e = NotConnected
           then \<lparr>client = s\<lparr>written := written s @ wire (service_unavailable (server_name cfg))\<rparr>,
                 logged = [LError (''no healthy upstream for '' @ req_method req @ '' '' @ req_path req),
                           LAccess (req_method req) (req_path req) 503 peer], table_after = set_route i r' pt\<rparr>
           else \<lparr>client = s\<lparr>written := written s @ wire (bad_gateway (server_name cfg))\<rparr>,
                 logged = [LError (''proxy upstream error for '' @ req_method req @ '' '' @ req_path req @ '' -> '' @ err_msg e),
                           LAccess (req_method req) (req_path req) 502 peer], table_after = set_route i r' pt\<rparr>))"
  by (simp add: serve_proxy_def relay_unbroken [OF assms] replies_ok [OF assms] Let_def split: prod.split poll.split sum.split)

lemma serve_static_ok: "unbroken s \<Longrightarrow> serve_static W cfg req peer s pt =
    Some \<lparr>client = s\<lparr>written := written s @ wire (route (the_fs W) req cfg)\<rparr>,
      logged = [LAccess (req_method req) (req_path req) (status_code (route (the_fs W) req cfg)) peer], table_after = pt\<rparr>"
  by (simp add: serve_static_def send_ok Let_def)

lemma serve_proxy_truthful:
  assumes "unbroken s" and "serve_proxy W cfg req peer s pt (i, r) = Some c"
  shows "truthful req peer s c"
  using assms(2) unfolding serve_proxy_unbroken [OF assms(1)]
  by (auto intro!: truthfulI split: prod.splits poll.splits sum.splits if_splits)

lemma serve_wasm_truthful:
  "unbroken s \<Longrightarrow> serve_wasm W cfg req peer s pt r = Some c \<Longrightarrow> truthful req peer s c"
  by (auto simp: serve_wasm_def replies_ok intro!: truthfulI split: option.splits sum.splits)

lemma serve_static_truthful: "unbroken s \<Longrightarrow> serve_static W cfg req peer s pt = Some c \<Longrightarrow> truthful req peer s c"
  by (auto simp: serve_static_ok intro!: truthfulI)

text \<open>
  C3: The access log is truthful: for a client that reads its reply, a parsed request whose
  handler ends leaves exactly one access line, with its method, its path and the peer, and the
  logged status is the status in the status line the client received, whichever handler
  answered and also when the upstream or the WASM module failed. (An upstream's reply without
  a readable status counts as 502.)
\<close>

theorem access_log_truthful:
  assumes "unbroken s" and "parse (the_std W) input = Ready (Inr (req, rest))"
    and "handle_generic W cfg input s peer pt wt = Some c"
  shows "\<exists>bytes status. written (client c) = written s @ bytes \<and> extract_status bytes = status \<and>
     filter (\<lambda>l. case l of LAccess _ _ _ _ \<Rightarrow> True | LError _ \<Rightarrow> False) (logged c) =
       [LAccess (req_method req) (req_path req) status peer]"
  unfolding truthful_def [symmetric] using assms
  by (auto simp: handle_generic_def split: option.splits
      dest: serve_wasm_truthful serve_static_truthful serve_proxy_truthful)

subsection \<open>Failures\<close>

text \<open>How a fetch from a picked upstream can fail.\<close>

definition upstream_fails :: "network \<Rightarrow> string \<Rightarrow> string \<Rightarrow> io_error \<Rightarrow> bool" where
  "upstream_fails net a text e = (dial net a = Ready (Inl e) \<or> dial net a = Ready (Inr ()) \<and>
     (upstream_write net a text = Ready (Inl e) \<or> upstream_write net a text = Ready (Inr ()) \<and>
        (upstream_reply net a text = ReplyError e \<or>
         upstream_reply net a text = ReplyTooLate \<and> e = io_err TimedOut ''deadline has elapsed'')))"

lemma fetch_fails:
  "fst (pick_upstream r) = Some target \<Longrightarrow>
   upstream_fails net (strip_scheme target) (request_text std req (strip_scheme target) peer) e \<Longrightarrow>
   fetch_from_upstream std net req r peer = (Ready (Inl e), snd (pick_upstream r))"
  by (cases "pick_upstream r") (auto simp: fetch_from_upstream_def upstream_fails_def Let_def)

text \<open>
  C38: Failures have their own answer, from the bytes of the request to the page and the log: a
  request that cannot be parsed is answered 500 and leaves one error line and no access line;
  if every target of the matched proxy route is marked unhealthy the client gets the 503 page;
  if the picked upstream cannot be dialled or written to, or its reply fails or takes ten
  seconds, the client gets the 502 page (but 503 if the system calls the error \<open>NotConnected\<close>,
  the kind the code uses for its own error); if the matched WASM handler fails it gets the 500
  page; each after one error line naming the request.
\<close>

theorem failures_are_answered:
  assumes "unbroken s"
  shows "(\<forall>e. parse (the_std W) input = Ready (Inl e) \<longrightarrow>
      handle_generic W cfg input s peer pt wt =
        Some \<lparr>client = s\<lparr>written := written s @ wire (internal_error (server_name cfg))\<rparr>,
              logged = [LError (''failed to parse request from '' @ peer @ '': '' @ err_msg e)], table_after = pt\<rparr>) \<and>
    (\<forall>req rest i r. parse (the_std W) input = Ready (Inr (req, rest)) \<and>
        proxy_match_entry pt (req_path req) = Some (i, r) \<and> (\<forall>t \<in> set (targets r). \<not> healthy t) \<longrightarrow>
      handle_generic W cfg input s peer pt wt =
        Some \<lparr>client = s\<lparr>written := written s @ wire (service_unavailable (server_name cfg))\<rparr>,
              logged = [LError (''no healthy upstream for '' @ req_method req @ '' '' @ req_path req),
                        LAccess (req_method req) (req_path req) 503 peer],
              table_after = set_route i (snd (pick_upstream r)) pt\<rparr>) \<and>
    (\<forall>req rest i r a e. parse (the_std W) input = Ready (Inr (req, rest)) \<and>
        proxy_match_entry pt (req_path req) = Some (i, r) \<and> fst (pick_upstream r) = Some a \<and>
        upstream_fails (the_net W) (strip_scheme a) (request_text (the_std W) req (strip_scheme a) peer) e \<longrightarrow>
      handle_generic W cfg input s peer pt wt =
        Some (if err_kind e \<noteq> NotConnected
          then \<lparr>client = s\<lparr>written := written s @ wire (bad_gateway (server_name cfg))\<rparr>,
                logged = [LError (''proxy upstream error for '' @ req_method req @ '' '' @ req_path req @ '' -> '' @ err_msg e),
                          LAccess (req_method req) (req_path req) 502 peer],
                table_after = set_route i (snd (pick_upstream r)) pt\<rparr>
          else \<lparr>client = s\<lparr>written := written s @ wire (service_unavailable (server_name cfg))\<rparr>,
                logged = [LError (''no healthy upstream for '' @ req_method req @ '' '' @ req_path req),
                          LAccess (req_method req) (req_path req) 503 peer],
                table_after = set_route i (snd (pick_upstream r)) pt\<rparr>)) \<and>
    (\<forall>req rest m msg. parse (the_std W) input = Ready (Inr (req, rest)) \<and>
        proxy_match_route pt (req_path req) = None \<and> wasm_match_route wt (req_path req) = Some m \<and>
        invoke (the_wasm W) m (req_method req) (req_path req) = Some (Inl msg) \<longrightarrow>
      handle_generic W cfg input s peer pt wt =
        Some \<lparr>client = s\<lparr>written := written s @ wire (internal_error (server_name cfg))\<rparr>,
              logged = [LError (''WASM handler error for '' @ req_method req @ '' '' @ req_path req @ '' -> '' @ msg),
                        LAccess (req_method req) (req_path req) 500 peer], table_after = pt\<rparr>)"
proof (intro conjI allI impI)
  fix e assume "parse (the_std W) input = Ready (Inl e)"
  then show "handle_generic W cfg input s peer pt wt =
        Some \<lparr>client = s\<lparr>written := written s @ wire (internal_error (server_name cfg))\<rparr>,
              logged = [LError (''failed to parse request from '' @ peer @ '': '' @ err_msg e)], table_after = pt\<rparr>"
    by (simp add: handle_generic_def replies_ok [OF assms])
next
  fix req rest i r
  assume h: "parse (the_std W) input = Ready (Inr (req, rest)) \<and>
        proxy_match_entry pt (req_path req) = Some (i, r) \<and> (\<forall>t \<in> set (targets r). \<not> healthy t)"
  then have "fetch_from_upstream (the_std W) (the_net W) req r peer = (Ready (Inl no_healthy_upstream), snd (pick_upstream r))"
    by (intro fetch_unhealthy) blast
  then show "handle_generic W cfg input s peer pt wt =
        Some \<lparr>client = s\<lparr>written := written s @ wire (service_unavailable (server_name cfg))\<rparr>,
              logged = [LError (''no healthy upstream for '' @ req_method req @ '' '' @ req_path req),
                        LAccess (req_method req) (req_path req) 503 peer],
              table_after = set_route i (snd (pick_upstream r)) pt\<rparr>"
    using h by (simp add: handle_generic_def serve_proxy_unbroken [OF assms] no_healthy_upstream_def)
next
  fix req rest i r a e
  assume h: "parse (the_std W) input = Ready (Inr (req, rest)) \<and>
        proxy_match_entry pt (req_path req) = Some (i, r) \<and> fst (pick_upstream r) = Some a \<and>
        upstream_fails (the_net W) (strip_scheme a) (request_text (the_std W) req (strip_scheme a) peer) e"
  then have "fetch_from_upstream (the_std W) (the_net W) req r peer = (Ready (Inl e), snd (pick_upstream r))"
    by (intro fetch_fails [of r a]) blast+
  then show "handle_generic W cfg input s peer pt wt =
        Some (if err_kind e \<noteq> NotConnected
          then \<lparr>client = s\<lparr>written := written s @ wire (bad_gateway (server_name cfg))\<rparr>,
                logged = [LError (''proxy upstream error for '' @ req_method req @ '' '' @ req_path req @ '' -> '' @ err_msg e),
                          LAccess (req_method req) (req_path req) 502 peer],
                table_after = set_route i (snd (pick_upstream r)) pt\<rparr>
          else \<lparr>client = s\<lparr>written := written s @ wire (service_unavailable (server_name cfg))\<rparr>,
                logged = [LError (''no healthy upstream for '' @ req_method req @ '' '' @ req_path req),
                          LAccess (req_method req) (req_path req) 503 peer],
                table_after = set_route i (snd (pick_upstream r)) pt\<rparr>)"
    using h by (simp add: handle_generic_def serve_proxy_unbroken [OF assms])
next
  fix req rest m msg
  assume h: "parse (the_std W) input = Ready (Inr (req, rest)) \<and>
        proxy_match_route pt (req_path req) = None \<and> wasm_match_route wt (req_path req) = Some m \<and>
        invoke (the_wasm W) m (req_method req) (req_path req) = Some (Inl msg)"
  then show "handle_generic W cfg input s peer pt wt =
        Some \<lparr>client = s\<lparr>written := written s @ wire (internal_error (server_name cfg))\<rparr>,
              logged = [LError (''WASM handler error for '' @ req_method req @ '' '' @ req_path req @ '' -> '' @ msg),
                        LAccess (req_method req) (req_path req) 500 peer], table_after = pt\<rparr>"
    by (simp add: handle_generic_def proxy_match_entry_route serve_wasm_def replies_ok [OF assms])
qed

subsection \<open>Completion\<close>

text \<open>A client that goes on reading, or breaks the connection, but does not just stop.\<close>

definition keeps_reading :: "sink \<Rightarrow> bool" where
  "keeps_reading s = (\<not> stalls s \<and> flush_result s \<noteq> Pending)"

lemma write_all_ends: "keeps_reading s \<Longrightarrow> write_all bs s = (p, t) \<Longrightarrow> p \<noteq> Pending \<and> keeps_reading t"
  by (auto simp: write_all_def keeps_reading_def split: option.splits if_splits)

lemma send_ends: "keeps_reading s \<Longrightarrow> fst (send r s) \<noteq> Pending"
  by (auto simp: send_def flush_def keeps_reading_def dest!: write_all_ends [unfolded keeps_reading_def, rotated]
      split: prod.split poll.split sum.split)

lemma replies_ends: "keeps_reading s \<Longrightarrow> \<exists>c. replies resp s calls pt = Some c"
  using send_ends [of s resp] by (cases "send resp s") (auto simp: replies_def split: poll.split)

lemma relay_ends:
  assumes "net_answers net" and "keeps_reading s" and "relay std net req r s peer = (p, r', t)"
  shows "p \<noteq> Pending \<and> keeps_reading t"
proof -
  obtain f rf where f: "fetch_from_upstream std net req r peer = (Ready f, rf)"
    using fetch_ends [OF assms(1), of std req r peer]
    by (cases "fetch_from_upstream std net req r peer") (auto intro: poll.exhaust)
  show ?thesis
  proof (cases f)
    case (Inl e)
    then show ?thesis using assms f by (auto simp: relay_def)
  next
    case (Inr bs)
    obtain q u where w: "write_all bs s = (q, u)" by (cases "write_all bs s")
    from write_all_ends [OF assms(2) w] have "q \<noteq> Pending" "keeps_reading u" by simp_all
    then show ?thesis using assms(3) f Inr w
      by (auto simp: relay_def flush_def keeps_reading_def Let_def split: poll.splits sum.splits)
  qed
qed

lemma serve_proxy_ends:
  assumes "net_answers (the_net W)" and "keeps_reading s"
  shows "\<exists>c. serve_proxy W cfg req peer s pt e = Some c"
proof -
  obtain i r where e: "e = (i, r)" by (cases e)
  obtain p r' t where rel: "relay (the_std W) (the_net W) req r s peer = (p, r', t)"
    by (cases "relay (the_std W) (the_net W) req r s peer")
  from relay_ends [OF assms rel] show ?thesis using replies_ends [of t]
    by (auto simp: serve_proxy_def e rel Let_def split: poll.split sum.split)
qed

lemma serve_wasm_ends: "guest_returns (the_wasm W) \<Longrightarrow> keeps_reading s \<Longrightarrow> \<exists>c. serve_wasm W cfg req peer s pt m = Some c"
  using invoke_total [of "the_wasm W" m "req_method req" "req_path req"] replies_ends [of s]
  by (auto simp: serve_wasm_def split: option.split sum.split)

lemma serve_static_ends: "keeps_reading s \<Longrightarrow> \<exists>c. serve_static W cfg req peer s pt = Some c"
  using send_ends [of s "route (the_fs W) req cfg"] by (auto simp: serve_static_def Let_def split: prod.split poll.split sum.split)

text \<open>What the client receives is a response of the server or the bytes of an upstream.\<close>

definition answer_bytes :: "('m, 'g) world \<Rightarrow> config \<Rightarrow> bytes \<Rightarrow> bool" where
  "answer_bytes W cfg bs = ((\<exists>resp. bs = wire resp \<and> resp_server_name resp = server_name cfg) \<or> (\<exists>a text. upstream_reply (the_net W) a text = Replied bs))"

lemma answer_bytesI:
  "resp_server_name resp = server_name cfg \<Longrightarrow> answer_bytes W cfg (wire resp)"
  "upstream_reply (the_net W) a u = Replied bs \<Longrightarrow> answer_bytes W cfg bs"
  by (auto simp: answer_bytes_def)

lemma serve_answers:
  assumes "unbroken s"
  shows "serve_proxy W cfg req peer s pt e = Some c \<Longrightarrow> \<exists>bs. written (client c) = written s @ bs \<and> answer_bytes W cfg bs"
    and "serve_wasm W cfg req peer s pt m = Some c \<Longrightarrow> \<exists>bs. written (client c) = written s @ bs \<and> answer_bytes W cfg bs"
    and "serve_static W cfg req peer s pt = Some c \<Longrightarrow> \<exists>bs. written (client c) = written s @ bs \<and> answer_bytes W cfg bs"
proof -
  show "\<exists>bs. written (client c) = written s @ bs \<and> answer_bytes W cfg bs" if "serve_proxy W cfg req peer s pt e = Some c"
    using that fetch_replied [of "the_std W" "the_net W" req "snd e" peer]
    by (cases e) (auto simp: serve_proxy_unbroken [OF assms] simp: answer_bytesI(1) intro: answer_bytesI(2)
        split: prod.splits poll.splits sum.splits if_splits)
qed (auto simp: serve_wasm_def serve_static_ok [OF assms] replies_ok [OF assms] simp: answer_bytesI(1) intro: answer_bytesI(2) split: option.splits sum.splits)

text \<open>
  C27: A connection ends with its answer: if the client sends a whole request head (or ends or
  breaks its side of the connection), if dialling and writing to upstreams come to an end and
  guest functions return, then the handler ends for every client that does not stop reading;
  and a client that takes its reply has received exactly a response of this server, with its
  configured name, or the bytes an upstream replied.
\<close>

theorem handle_completes:
  assumes "ending input \<noteq> Silent \<or> (\<exists>u r. avail input = u @ LF # crlf @ r)"
    and "guest_returns (the_wasm W)" and "net_answers (the_net W)" and "keeps_reading s"
  shows "\<exists>c. handle W cfg peer_addr input s pt wt = Some c \<and>
    (unbroken s \<longrightarrow> (\<exists>bs. written (client c) = written s @ bs \<and>
       ((\<exists>resp. bs = wire resp \<and> resp_server_name resp = server_name cfg) \<or>
        (\<exists>a text. upstream_reply (the_net W) a text = Replied bs))))"
proof -
  let ?peer = "case peer_addr of Inr a \<Rightarrow> a | Inl _ \<Rightarrow> ''unknown''"
  have parse: "parse (the_std W) input \<noteq> Pending"
    using assms(1) parse_pending parse_whole_head by blast
  have ends: "\<exists>c. handle_generic W cfg input s ?peer pt wt = Some c"
    using parse serve_proxy_ends [OF assms(3,4)] serve_wasm_ends [OF assms(2,4)]
      serve_static_ends [OF assms(4), where W = W] replies_ends [OF assms(4)]
    unfolding handle_generic_def by (auto split: poll.split sum.split option.split)
  then obtain c where c: "handle_generic W cfg input s ?peer pt wt = Some c" ..
  have "\<exists>bs. written (client c) = written s @ bs \<and> answer_bytes W cfg bs" if u: "unbroken s"
    using c serve_answers [OF u]
    by (auto simp: handle_generic_def replies_ok [OF u] simp: answer_bytesI(1) intro: answer_bytesI(2) split: poll.splits sum.splits option.splits)
  then show ?thesis using c by (auto simp: handle_def answer_bytes_def Let_def)
qed

text \<open>Each of these conditions is needed: a client that stops reading keeps the task for ever.\<close>

lemma stalled_client:
  assumes "stalls s" and "room s = Some n" and "n < length (wire (route (the_fs W) req cfg))"
  shows "serve_static W cfg req peer s pt = None"
proof -
  have "fst (send (route (the_fs W) req cfg) s) = Pending"
    using assms by (auto simp: send_def wire_def write_all_def split: option.splits)
  then show ?thesis by (cases "send (route (the_fs W) req cfg) s") (simp add: serve_static_def Let_def)
qed

text \<open>
  The failure of the wrong side: when the client's connection breaks while an upstream's
  good reply is relayed, the log blames the upstream and says 502, although the upstream
  answered and the client received a prefix of that answer (whose status line may say 200).
\<close>

theorem client_abort_logged_as_502:
  assumes "fetch_from_upstream (the_std W) (the_net W) req r peer = (Ready (Inr bs), r')"
    and "room s = Some n" and "n < length bs" and "keeps_reading s" and "err_kind (write_err s) \<noteq> NotConnected"
  shows "\<exists>c. serve_proxy W cfg req peer s pt (i, r) = Some c \<and>
    prefix (written s @ take n bs) (written (client c)) \<and>
    logged c =
      [LError (''proxy upstream error for '' @ req_method req @ '' '' @ req_path req @ '' -> '' @ err_msg (write_err s)),
       LAccess (req_method req) (req_path req) 502 peer]"
proof -
  obtain t where w: "write_all bs s = (Ready (Inl (write_err s)), t)" "written t = written s @ take n bs"
    using assms(2-4) by (simp add: write_all_def keeps_reading_def)
  then have rel: "relay (the_std W) (the_net W) req r s peer = (Ready (Inl (write_err s)), r', t)"
    using assms(1) by (simp add: relay_def)
  have "keeps_reading t" using write_all_ends [OF assms(4) w(1)] by simp
  then obtain p u where "send (bad_gateway (server_name cfg)) t = (Ready p, u)"
    using send_ends [of t "bad_gateway (server_name cfg)"]
    by (cases "send (bad_gateway (server_name cfg)) t") (auto intro: poll.exhaust)
  then show ?thesis using assms(5) send_append [of t "bad_gateway (server_name cfg)"] w(2)
    by (simp add: serve_proxy_def rel replies_def Let_def)
qed

subsection \<open>Concrete connections\<close>

definition sample_world :: "(unit, hello_store) world" where
  "sample_world = \<lparr>the_std = std_id, the_net = echo_net, the_fs = (\<lambda>_. sample_fs), the_wasm = hello_engine\<rparr>"

definition head_for :: "string \<Rightarrow> instream" where
  "head_for p = \<lparr>avail = ''GET '' @ p @ '' HTTP/1.1'' @ crlf @ crlf, ending = Eof\<rparr>"

definition index_head :: instream where
  "index_head = head_for ''/''"

definition no_proxy :: proxy_table where
  "no_proxy = \<lparr>pt_routes = []\<rparr>"

definition hello_table :: "unit wasm_table" where
  "hello_table = \<lparr>wt_routes = [hello_route]\<rparr>"

lemma sample_std [simp]: "the_std sample_world = std_id" "the_net sample_world = echo_net"
    "the_wasm sample_world = hello_engine"
  by (simp_all add: sample_world_def)

lemma parse_heads:
  "parse std_id (head_for ''/'') = Ready (Inr (get_request ''/'', \<lparr>avail = [], ending = Eof\<rparr>))"
  "parse std_id (head_for ''/api/x'') = Ready (Inr (get_request ''/api/x'', \<lparr>avail = [], ending = Eof\<rparr>))"
  "parse std_id (head_for ''/wasm/x'') = Ready (Inr (get_request ''/wasm/x'', \<lparr>avail = [], ending = Eof\<rparr>))"
  by code_simp+

lemma parse_index: "parse std_id index_head = Ready (Inr (get_request ''/'', \<lparr>avail = [], ending = Eof\<rparr>))"
  by (simp add: index_head_def parse_heads)

lemma parse_index_head: "parse (the_std sample_world) index_head =
    Ready (Inr (get_request ''/'', \<lparr>avail = [], ending = Eof\<rparr>))"
  by (simp add: parse_index)

lemma parse_broken: "parse std_id \<lparr>avail = [], ending = ReadErr e\<rparr> = Ready (Inl e)"
  by (simp add: parse_def read_line_def cut_line_def)

lemma index_unmatched [simp]:
  "req_path (get_request p) = p" "req_method (get_request p) = ''GET''" "proxy_match_route no_proxy p = None"
  "proxy_match_entry no_proxy p = None" "wasm_match_route hello_table ''/'' = None"
  by (simp_all add: get_request_def no_proxy_def proxy_match_route_def proxy_match_entry_def hello_table_def
      wasm_match_route_def hello_route_def)

lemma open_sink_unbroken: "unbroken open_sink"
  by (simp add: unbroken_def open_sink_def)

lemma open_sink_reads: "keeps_reading open_sink"
  by (simp add: keeps_reading_def open_sink_def)

definition sick_route :: proxy_route where
  "sick_route = \<lparr>route_prefix = ''/api'', targets = [\<lparr>addr = ''http://a:1'', healthy = False\<rparr>], counter = 0\<rparr>"

text \<open>A table in which the route that answers \<open>/api/x\<close> is neither the first nor the only match.\<close>

definition two_routes :: proxy_table where
  "two_routes = \<lparr>pt_routes = [sick_route\<lparr>route_prefix := ''/''\<rparr>, fair_route]\<rparr>"

lemma sample_matches:
  "proxy_match_route two_routes ''/api/x'' = Some fair_route" "proxy_match_entry two_routes ''/api/x'' = Some (1, fair_route)"
  "wasm_match_route hello_table ''/wasm/x'' = Some hello_route"
  "proxy_match_entry \<lparr>pt_routes = [sick_route]\<rparr> ''/api/x'' = Some (0, sick_route)"
  by (simp_all add: proxy_match_route_def proxy_match_entry_def two_routes_def sick_route_def fair_route_def
      sample_route_def hello_table_def wasm_match_route_def hello_route_def)

theorem routing_precedence_witness:
  "(\<exists>i < 2. pt_routes two_routes ! i = fair_route \<and>
      handle_generic sample_world sample_cfg (head_for ''/api/x'') open_sink ''p'' two_routes hello_table =
        map_option (\<lambda>c. c\<lparr>table_after := set_route i (hd (pt_routes (table_after c))) two_routes\<rparr>)
          (handle_generic (sample_world\<lparr>the_fs := (\<lambda>_. sample_fs), the_wasm := hello_engine\<rparr>) sample_cfg (head_for ''/api/x'')
             open_sink ''p'' \<lparr>pt_routes = [fair_route]\<rparr> \<lparr>wt_routes = []\<rparr>)) \<and>
   handle_generic sample_world sample_cfg (head_for ''/wasm/x'') open_sink ''p'' no_proxy hello_table =
     map_option (\<lambda>c. c\<lparr>table_after := no_proxy\<rparr>)
       (handle_generic (sample_world\<lparr>the_fs := (\<lambda>_. sample_fs), the_net := echo_net\<rparr>) sample_cfg (head_for ''/wasm/x'')
          open_sink ''p'' \<lparr>pt_routes = []\<rparr> \<lparr>wt_routes = [hello_route]\<rparr>) \<and>
   handle_generic sample_world sample_cfg (head_for ''/'') open_sink ''p'' no_proxy hello_table =
     map_option (\<lambda>c. c\<lparr>table_after := no_proxy\<rparr>)
       (handle_generic (sample_world\<lparr>the_net := echo_net, the_wasm := hello_engine\<rparr>) sample_cfg (head_for ''/'')
          open_sink ''p'' \<lparr>pt_routes = []\<rparr> \<lparr>wt_routes = []\<rparr>)"
proof -
  have parse: "parse (the_std sample_world) (head_for ''/'') = Ready (Inr (get_request ''/'', \<lparr>avail = [], ending = Eof\<rparr>))"
    "parse (the_std sample_world) (head_for ''/api/x'') = Ready (Inr (get_request ''/api/x'', \<lparr>avail = [], ending = Eof\<rparr>))"
    "parse (the_std sample_world) (head_for ''/wasm/x'') = Ready (Inr (get_request ''/wasm/x'', \<lparr>avail = [], ending = Eof\<rparr>))"
    by (simp_all add: parse_heads)
  have two: "length (pt_routes two_routes) = 2" by (simp add: two_routes_def)
  show ?thesis
    using routing_precedence [OF parse(2), where pt = two_routes and wt = hello_table and cfg = sample_cfg and s = open_sink
          and peer = "''p''" and fs' = "\<lambda>_. sample_fs" and wasm' = hello_engine and wt' = "\<lparr>wt_routes = []\<rparr>"]
      routing_precedence [OF parse(3), where pt = no_proxy and wt = hello_table and cfg = sample_cfg and s = open_sink
          and peer = "''p''" and fs' = "\<lambda>_. sample_fs" and net' = echo_net]
      routing_precedence [OF parse(1), where pt = no_proxy and wt = hello_table and cfg = sample_cfg and s = open_sink
          and peer = "''p''" and net' = echo_net and wasm' = hello_engine]
    unfolding index_unmatched sample_matches two by blast
qed

theorem access_log_truthful_witness:
  "\<exists>c bytes status. handle_generic sample_world sample_cfg index_head open_sink ''p'' no_proxy hello_table = Some c \<and>
     written (client c) = bytes \<and> extract_status bytes = status \<and>
     filter (\<lambda>l. case l of LAccess _ _ _ _ \<Rightarrow> True | LError _ \<Rightarrow> False) (logged c) =
       [LAccess ''GET'' ''/'' status ''p'']"
proof -
  obtain c where c: "handle_generic sample_world sample_cfg index_head open_sink ''p'' no_proxy hello_table = Some c"
    by (auto simp: handle_generic_def parse_index serve_static_ok [OF open_sink_unbroken])
  from access_log_truthful [OF open_sink_unbroken parse_index_head this] this
  show ?thesis by (simp add: open_sink_def)
qed

definition refusing_world :: "(unit, hello_store) world" where
  "refusing_world = sample_world\<lparr>
     the_net := echo_net\<lparr>dial := (\<lambda>_. Ready (Inl (io_err (OtherKind ''ConnectionRefused'') ''Connection refused'')))\<rparr>,
     the_wasm := hello_engine\<lparr>instantiate := (\<lambda>_. Inl ''out of memory'')\<rparr>\<rparr>"

theorem failures_are_answered_witness:
  "map_option logged (handle_generic refusing_world sample_cfg \<lparr>avail = [], ending = ReadErr no_healthy_upstream\<rparr>
      open_sink ''p'' no_proxy hello_table) =
     Some [LError ''failed to parse request from p: no healthy upstream available''] \<and>
   map_option logged (handle_generic refusing_world sample_cfg (head_for ''/api/x'') open_sink ''p'' \<lparr>pt_routes = [sick_route]\<rparr>
      hello_table) = Some [LError ''no healthy upstream for GET /api/x'', LAccess ''GET'' ''/api/x'' 503 ''p''] \<and>
   map_option logged (handle_generic refusing_world sample_cfg (head_for ''/api/x'') open_sink ''p'' two_routes hello_table) =
     Some [LError ''proxy upstream error for GET /api/x -> Connection refused'', LAccess ''GET'' ''/api/x'' 502 ''p''] \<and>
   map_option logged (handle_generic refusing_world sample_cfg (head_for ''/wasm/x'') open_sink ''p'' no_proxy hello_table) =
     Some [LError ''WASM handler error for GET /wasm/x -> instantiation failed: out of memory'', LAccess ''GET'' ''/wasm/x'' 500 ''p'']"
proof -
  note failures = failures_are_answered [OF open_sink_unbroken, where W = refusing_world and cfg = sample_cfg
        and peer = "''p''" and wt = hello_table]
  have std: "the_std refusing_world = std_id" by (simp add: refusing_world_def)
  have parse: "parse (the_std refusing_world) \<lparr>avail = [], ending = ReadErr no_healthy_upstream\<rparr> = Ready (Inl no_healthy_upstream)"
    "parse (the_std refusing_world) (head_for ''/api/x'') = Ready (Inr (get_request ''/api/x'', \<lparr>avail = [], ending = Eof\<rparr>))"
    "parse (the_std refusing_world) (head_for ''/wasm/x'') = Ready (Inr (get_request ''/wasm/x'', \<lparr>avail = [], ending = Eof\<rparr>))"
    by (simp_all only: std parse_broken parse_heads)
  have sick: "\<forall>t \<in> set (targets sick_route). \<not> healthy t" by (simp add: sick_route_def)
  have "\<forall>t \<in> set (targets fair_route). healthy t" "targets fair_route \<noteq> []"
    by (simp_all add: fair_route_def sample_route_def)
  then obtain a where pick: "fst (pick_upstream fair_route) = Some a" using pick_upstream_all_healthy by simp
  let ?e = "io_err (OtherKind ''ConnectionRefused'') ''Connection refused''"
  have refused: "upstream_fails (the_net refusing_world) (strip_scheme a) u ?e" for u
    by (simp add: upstream_fails_def refusing_world_def)
  have wasm: "invoke (the_wasm refusing_world) hello_route ''GET'' ''/wasm/x'' = Some (Inl ''instantiation failed: out of memory'')"
    by (simp add: invoke_def refusing_world_def)
  have "map_option logged (handle_generic refusing_world sample_cfg \<lparr>avail = [], ending = ReadErr no_healthy_upstream\<rparr>
      open_sink ''p'' no_proxy hello_table) =
     Some [LError ''failed to parse request from p: no healthy upstream available'']"
    using failures [of "\<lparr>avail = [], ending = ReadErr no_healthy_upstream\<rparr>" no_proxy] parse(1)
    by (simp add: no_healthy_upstream_def)
  moreover have "map_option logged (handle_generic refusing_world sample_cfg (head_for ''/api/x'') open_sink ''p''
      \<lparr>pt_routes = [sick_route]\<rparr> hello_table) =
      Some [LError ''no healthy upstream for GET /api/x'', LAccess ''GET'' ''/api/x'' 503 ''p'']"
    using failures [of "head_for ''/api/x''" "\<lparr>pt_routes = [sick_route]\<rparr>"] parse(2) sick sample_matches(4) by simp
  moreover have "map_option logged (handle_generic refusing_world sample_cfg (head_for ''/api/x'') open_sink ''p''
      two_routes hello_table) =
      Some [LError ''proxy upstream error for GET /api/x -> Connection refused'', LAccess ''GET'' ''/api/x'' 502 ''p'']"
  proof -
    have "parse (the_std refusing_world) (head_for ''/api/x'') = Ready (Inr (get_request ''/api/x'', \<lparr>avail = [], ending = Eof\<rparr>)) \<and>
        proxy_match_entry two_routes (req_path (get_request ''/api/x'')) = Some (1, fair_route) \<and>
        fst (pick_upstream fair_route) = Some a \<and> upstream_fails (the_net refusing_world) (strip_scheme a)
          (request_text (the_std refusing_world) (get_request ''/api/x'') (strip_scheme a) ''p'') ?e"
      using parse(2) sample_matches(2) pick refused by simp
    from failures [THEN conjunct2, THEN conjunct2, THEN conjunct1, rule_format, OF this]
    show ?thesis by auto
  qed
  moreover have "map_option logged (handle_generic refusing_world sample_cfg (head_for ''/wasm/x'') open_sink ''p'' no_proxy
      hello_table) =
      Some [LError ''WASM handler error for GET /wasm/x -> instantiation failed: out of memory'', LAccess ''GET'' ''/wasm/x'' 500 ''p'']"
    using failures [of "head_for ''/wasm/x''" no_proxy] parse(3) sample_matches(3) wasm by simp
  ultimately show ?thesis by blast
qed

theorem handle_completes_witness:
  "\<exists>c bs. handle sample_world sample_cfg (Inr ''p'') \<lparr>avail = ''GET / HTTP/1.1'' @ crlf @ crlf, ending = Silent\<rparr>
      open_sink no_proxy hello_table = Some c \<and> written (client c) = bs \<and>
      ((\<exists>resp. bs = wire resp \<and> resp_server_name resp = server_name sample_cfg) \<or>
       (\<exists>a text. upstream_reply echo_net a text = Replied bs))"
proof -
  have "\<exists>u r. avail \<lparr>avail = ''GET / HTTP/1.1'' @ crlf @ crlf, ending = Silent\<rparr> = u @ LF # crlf @ r"
    by (intro exI [of _ "''GET / HTTP/1.1'' @ [CR]"] exI [of _ "[]"]) simp
  then show ?thesis
    using handle_completes [of "\<lparr>avail = ''GET / HTTP/1.1'' @ crlf @ crlf, ending = Silent\<rparr>" sample_world open_sink
        sample_cfg "Inr ''p''" no_proxy hello_table]
      hello_guest_returns echo_answers open_sink_reads open_sink_unbroken
    by (auto simp: open_sink_def)
qed

theorem client_abort_logged_as_502_witness:
  "\<exists>c. serve_proxy sample_world sample_cfg sample_request ''p'' (open_sink\<lparr>room := Some 30\<rparr>)
      \<lparr>pt_routes = [fair_route]\<rparr> (0, fair_route) = Some c \<and> logged c =
    [LError ''proxy upstream error for GET /api/x -> Broken pipe (os error 32)'',
     LAccess ''GET'' ''/api/x'' 502 ''p'']"
proof -
  let ?reply = "wire (set_body ''hello'' ''text/plain'' (ok ''up''))"
  obtain r' where f: "fetch_from_upstream (the_std sample_world) (the_net sample_world) sample_request fair_route ''p'' =
      (Ready (Inr ?reply), r')"
    using echo_fetch [of std_id sample_request "''p''"]
    by (cases "fetch_from_upstream std_id echo_net sample_request fair_route ''p''") simp
  have "30 < length ?reply" by (simp add: wire_def response_head_def)
  then show ?thesis
    using client_abort_logged_as_502 [OF f, of "open_sink\<lparr>room := Some 30\<rparr>" 30 sample_cfg "\<lparr>pt_routes = [fair_route]\<rparr>" 0]
    by (auto simp: open_sink_def sample_request_def keeps_reading_def)
qed

end
