(* ===== verification/Http2.thy ===== *)
theory Http2
  imports Connection
begin

section \<open>HTTP/2 (src/http2/mod.rs) and the bridge interface\<close>

text \<open>
  An HTTP/2 stream is turned into the server's own request, answered by the same three
  handlers as HTTP/1.x, and the answer is sent as a head and one data frame. The crates
  \<open>h2\<close> and \<open>http\<close> are parameters. The interface \<open>bridge\<close> is what this handler shares with
  the HTTP/3 one: it computes \<open>bridge_answer\<close> and sends it.
\<close>

text \<open>
  The crate \<open>http\<close>: reading a header value as text, and building a response head, which fails
  on an invalid status or header value. \<open>frame_request\<close> is a request as that crate gives it.
\<close>

record http_crate =
  value_to_str :: "bytes \<Rightarrow> string option"
  build_head :: "u16 \<Rightarrow> (string \<times> string) list \<Rightarrow> (u16 \<times> (string \<times> string) list) option"

record frame_request =
  fr_method :: string
  fr_uri_path :: string
  fr_fields :: "(string \<times> bytes) list"

text \<open>
  The client's side of a stream: what it still accepts and what it has been sent. Every log
  call comes before the sending. An HTTP/3 send that never returns leaves the same trace as a
  stream that accepts nothing from there on; \<open>h2\<close> takes what it is given into its own buffers.
\<close>

record reply_stream =
  takes_head :: bool
  takes_data :: bool
  takes_end :: bool
  got_head :: "(u16 \<times> (string \<times> string) list) option"
  got_data :: bytes
  got_end :: bool

text \<open>The end of a stream's task: \<open>reply\<close> is \<open>None\<close> if it panicked while building the head.\<close>

record stream_task =
  reply :: "reply_stream option"
  st_logged :: "log_call list"
  st_table :: proxy_table

subsection \<open>Requests\<close>

definition frame_headers :: "std_params \<Rightarrow> http_crate \<Rightarrow> (string \<times> bytes) list \<Rightarrow> hashmap" where
  "frame_headers std H fs =
     fold (\<lambda>(name, v) headers. case value_to_str H v of
        Some s \<Rightarrow> hm_insert (to_lowercase (uni_lower std) name) s headers | None \<Rightarrow> headers) fs []"

definition h2_to_nwarp_request :: "std_params \<Rightarrow> http_crate \<Rightarrow> frame_request \<Rightarrow> request" where
  "h2_to_nwarp_request std H fr =
     \<lparr>req_method = fr_method fr, req_path = fr_uri_path fr, req_version = ''HTTP/2'',
      req_headers = frame_headers std H (fr_fields fr)\<rparr>"

subsection \<open>Responses\<close>

definition send_h2_response :: "http_crate \<Rightarrow> reply_stream \<Rightarrow> u16 \<Rightarrow> string \<Rightarrow> bytes \<Rightarrow> config \<Rightarrow>
    reply_stream option" where
  "send_h2_response H respond status ctype bs cfg =
     (case build_head H status [(''server'', server_name cfg), (''content-type'', ctype),
                                (''content-length'', show_nat (length bs))] of
        None \<Rightarrow> None
      | Some built \<Rightarrow>
          Some (if takes_head respond
                then (let s = respond\<lparr>got_head := Some built\<rparr> in
                      if takes_data s then s\<lparr>got_data := bs, got_end := True\<rparr> else s)
                else respond))"

definition short_page :: "string \<Rightarrow> config \<Rightarrow> string" where
  "short_page what cfg = ''<h1>'' @ what @ ''</h1><p>'' @ server_name cfg @ ''</p>''"

definition h2_handle_stream :: "('m, 'g) world \<Rightarrow> http_crate \<Rightarrow> config \<Rightarrow> frame_request \<Rightarrow> reply_stream \<Rightarrow>
    string \<Rightarrow> proxy_table \<Rightarrow> 'm wasm_table \<Rightarrow> stream_task option" where
  "h2_handle_stream W H cfg h2_request respond peer pt wt =
     (let req = h2_to_nwarp_request (the_std W) H h2_request;
          meth = req_method req; path = req_path req in
      case proxy_match_entry pt path of
        Some (i, r) \<Rightarrow>
          (case relay_raw (the_std W) (the_net W) req r peer of
             (Pending, r) \<Rightarrow> None
           | (Ready (Inr raw_bytes), r) \<Rightarrow>
               (let (status, bs) = split_raw_response raw_bytes in
                Some \<lparr>reply = send_h2_response H respond status ''application/octet-stream'' bs cfg,
                      st_logged = [LAccess meth path status peer], st_table = set_route i r pt\<rparr>)
           | (Ready (Inl e), r) \<Rightarrow>
               if err_kind e = NotConnected then
                 Some \<lparr>reply = send_h2_response H respond 503 ''text/html; charset=utf-8''
                                 (short_page ''503 Service Unavailable'' cfg) cfg,
                       st_logged = [LError (''no healthy upstream for '' @ meth @ '' '' @ path),
                                    LAccess meth path 503 peer], st_table = set_route i r pt\<rparr>
               else
                 Some \<lparr>reply = send_h2_response H respond 502 ''text/html; charset=utf-8''
                                 (short_page ''502 Bad Gateway'' cfg) cfg,
                       st_logged = [LError (''proxy upstream error for '' @ meth @ '' '' @ path @ '' -> '' @ err_msg e),
                                    LAccess meth path 502 peer], st_table = set_route i r pt\<rparr>)
      | None \<Rightarrow>
          (case wasm_match_route wt path of
             Some m \<Rightarrow>
               (case invoke (the_wasm W) m meth path of
                  None \<Rightarrow> None
                | Some (Inr (status, bs)) \<Rightarrow>
                    Some \<lparr>reply = send_h2_response H respond status ''text/plain; charset=utf-8'' bs cfg,
                          st_logged = [LAccess meth path status peer], st_table = pt\<rparr>
                | Some (Inl e) \<Rightarrow>
                    Some \<lparr>reply = send_h2_response H respond 500 ''text/html; charset=utf-8''
                                    (short_page ''500 Internal Server Error'' cfg) cfg,
                          st_logged = [LError (''WASM handler error for '' @ meth @ '' '' @ path @ '' -> '' @ e),
                                       LAccess meth path 500 peer], st_table = pt\<rparr>)
           | None \<Rightarrow>
               (let response = route (the_fs W) req cfg in
                Some \<lparr>reply = send_h2_response H respond (status_code response) (content_type response)
                                (body response) cfg,
                      st_logged = [LAccess meth path (status_code response) peer], st_table = pt\<rparr>)))"

definition from_nwarp_response :: "response \<Rightarrow> u16 \<times> string \<times> bytes" where
  "from_nwarp_response resp = (status_code resp, content_type resp, body resp)"

subsection \<open>The connection\<close>

text \<open>
  What the accept loop of a connection does, in order: it starts a task for a stream, or logs.
  The connection ends when \<open>accept\<close> returns \<open>None\<close>, the end of the list.
\<close>

datatype 'r conn_action = Spawn 'r | Logs log_call

fun h2_accept_loop :: "string \<Rightarrow> (string + 'r) list \<Rightarrow> 'r conn_action list" where
  "h2_accept_loop peer [] = []"
| "h2_accept_loop peer (Inr req # rest) = Spawn req # h2_accept_loop peer rest"
| "h2_accept_loop peer (Inl e # rest) =
     Logs (LError (''HTTP/2 stream error for '' @ peer @ '': '' @ e)) # h2_accept_loop peer rest"

definition h2_serve :: "(string + unit) \<Rightarrow> string \<Rightarrow> (string + 'r) list \<Rightarrow> 'r conn_action list" where
  "h2_serve handshake peer accepts =
     (case handshake of
        Inl e \<Rightarrow> [Logs (LError (''HTTP/2 handshake failed for '' @ peer @ '': '' @ e))]
      | Inr _ \<Rightarrow> h2_accept_loop peer accepts)"

subsection \<open>What a bridge answers\<close>

record answer =
  an_status :: u16
  an_type :: string
  an_body :: bytes
  an_logged :: "log_call list"
  an_table :: proxy_table

text \<open>An answer for a failure: the status, the phrase and the error line.\<close>

definition failed :: "config \<Rightarrow> request \<Rightarrow> string \<Rightarrow> proxy_table \<Rightarrow> u16 \<Rightarrow> string \<Rightarrow> string \<Rightarrow> answer" where
  "failed cfg req peer pt st phrase line =
     \<lparr>an_status = st, an_type = ''text/html; charset=utf-8'', an_body = short_page phrase cfg,
      an_logged = [LError line, LAccess (req_method req) (req_path req) st peer], an_table = pt\<rparr>"

definition answered :: "request \<Rightarrow> string \<Rightarrow> proxy_table \<Rightarrow> u16 \<Rightarrow> string \<Rightarrow> bytes \<Rightarrow> answer" where
  "answered req peer pt st ctype bs =
     \<lparr>an_status = st, an_type = ctype, an_body = bs,
      an_logged = [LAccess (req_method req) (req_path req) st peer], an_table = pt\<rparr>"

definition about :: "request \<Rightarrow> string" where
  "about req = req_method req @ '' '' @ req_path req"

text \<open>The abstract specification of a bridge: which answer a request gets, before it is sent.\<close>

definition bridge_answer :: "('m, 'g) world \<Rightarrow> config \<Rightarrow> request \<Rightarrow> string \<Rightarrow> proxy_table \<Rightarrow> 'm wasm_table \<Rightarrow>
    answer option" where
  "bridge_answer W cfg req peer pt wt =
     (case proxy_match_entry pt (req_path req) of
        Some (i, r) \<Rightarrow>
          (case fetch_from_upstream (the_std W) (the_net W) req r peer of
             (Pending, r) \<Rightarrow> None
           | (Ready (Inr raw), r) \<Rightarrow> Some (answered req peer (set_route i r pt) (fst (split_raw_response raw))
                 ''application/octet-stream'' (snd (split_raw_response raw)))
           | (Ready (Inl e), r) \<Rightarrow>
               Some (if err_kind e = NotConnected
                 then failed cfg req peer (set_route i r pt) 503 ''503 Service Unavailable''
                        (''no healthy upstream for '' @ about req)
                 else failed cfg req peer (set_route i r pt) 502 ''502 Bad Gateway''
                        (''proxy upstream error for '' @ about req @ '' -> '' @ err_msg e)))
      | None \<Rightarrow>
          (case wasm_match_route wt (req_path req) of
             Some m \<Rightarrow>
               (case invoke (the_wasm W) m (req_method req) (req_path req) of
                  None \<Rightarrow> None
                | Some (Inr (st, bs)) \<Rightarrow> Some (answered req peer pt st ''text/plain; charset=utf-8'' bs)
                | Some (Inl e) \<Rightarrow> Some (failed cfg req peer pt 500 ''500 Internal Server Error''
                     (''WASM handler error for '' @ about req @ '' -> '' @ e)))
           | None \<Rightarrow>
               (let resp = route (the_fs W) req cfg in
                Some (answered req peer pt (status_code resp) (content_type resp) (body resp)))))"

definition deliver :: "(u16 \<Rightarrow> string \<Rightarrow> bytes \<Rightarrow> reply_stream option) \<Rightarrow> answer \<Rightarrow> stream_task" where
  "deliver send_response a =
     \<lparr>reply = send_response (an_status a) (an_type a) (an_body a), st_logged = an_logged a, st_table = an_table a\<rparr>"

lemmas answer_defs = deliver_def answered_def failed_def about_def

lemma answer_log:
  assumes "bridge_answer W cfg req peer pt wt = Some a"
  shows "\<exists>errs. an_logged a = errs @ [LAccess (req_method req) (req_path req) (an_status a) peer] \<and> length errs \<le> 1"
  using assms
  by (auto simp: bridge_answer_def answered_def failed_def Let_def split: option.splits prod.splits sum.splits poll.splits if_splits)

text \<open>
  The interface of a bridge: its conversion of requests, how it sends, and its handler, which
  sends exactly the specified answer; a sent head is the one the \<open>http\<close> crate built, from the
  status and a list of fields that has the server name and the content type.
\<close>

locale bridge =
  fixes to_request :: "std_params \<Rightarrow> http_crate \<Rightarrow> frame_request \<Rightarrow> request"
    and send_response :: "http_crate \<Rightarrow> reply_stream \<Rightarrow> u16 \<Rightarrow> string \<Rightarrow> bytes \<Rightarrow> config \<Rightarrow> reply_stream option"
    and fields_of :: "u16 \<Rightarrow> string \<Rightarrow> bytes \<Rightarrow> config \<Rightarrow> (string \<times> string) list"
    and handler :: "('m, 'g) world \<Rightarrow> http_crate \<Rightarrow> config \<Rightarrow> frame_request \<Rightarrow> reply_stream \<Rightarrow> string \<Rightarrow>
      proxy_table \<Rightarrow> 'm wasm_table \<Rightarrow> stream_task option"
  assumes handler_answer: "handler W H cfg fr respond peer pt wt =
      map_option (deliver (\<lambda>st ctype bs. send_response H respond st ctype bs cfg))
        (bridge_answer W cfg (to_request (the_std W) H fr) peer pt wt)"
    and same_request: "req_method (to_request std H fr) = fr_method fr \<and> req_path (to_request std H fr) = fr_uri_path fr \<and>
      req_headers (to_request std H fr) = frame_headers std H (fr_fields fr)"
    and send_panics: "send_response H respond st ctype bs cfg = None \<longleftrightarrow>
      build_head H st (fields_of st ctype bs cfg) = None"
    and send_delivers: "build_head H st (fields_of st ctype bs cfg) = Some h \<Longrightarrow>
      takes_head respond \<Longrightarrow> takes_data respond \<Longrightarrow> takes_end respond \<Longrightarrow>
      send_response H respond st ctype bs cfg =
        Some (respond\<lparr>got_head := Some h, got_data := bs, got_end := True\<rparr>)"
begin

lemma handler_truthful:
  assumes "handler W H cfg fr respond peer pt wt = Some t" and "reply t = Some s'"
    and "takes_head respond" and "takes_data respond" and "takes_end respond"
    and "\<And>st hs h. build_head H st hs = Some h \<Longrightarrow> h = (st, hs)"
  shows "\<exists>st hs errs. got_head s' = Some (st, hs) \<and> got_end s' \<and> length errs \<le> 1 \<and>
    st_logged t = errs @ [LAccess (fr_method fr) (fr_uri_path fr) st peer]"
proof -
  obtain a where a: "bridge_answer W cfg (to_request (the_std W) H fr) peer pt wt = Some a"
      "t = deliver (\<lambda>st ctype bs. send_response H respond st ctype bs cfg) a"
    using assms(1) by (auto simp: handler_answer)
  then have r: "send_response H respond (an_status a) (an_type a) (an_body a) cfg = Some s'"
    using assms(2) by (simp add: deliver_def)
  then obtain h where h: "build_head H (an_status a) (fields_of (an_status a) (an_type a) (an_body a) cfg) = Some h"
    using send_panics [of H respond "an_status a" "an_type a" "an_body a" cfg] by auto
  show ?thesis
    using send_delivers [OF h assms(3-5)] r assms(6) [OF h] answer_log [OF a(1)] a(2)
      same_request [of "the_std W" H fr] by (auto simp: deliver_def)
qed

lemma handler_completes:
  assumes "guest_returns (the_wasm W)" and "net_answers (the_net W)"
  shows "\<exists>t. handler W H cfg fr respond peer pt wt = Some t"
proof -
  have returns: "invoke (the_wasm W) r m p \<noteq> None" for r m p
    using invoke_total [OF assms(1), of r m p] by auto
  have ends: "fetch_from_upstream (the_std W) (the_net W) req r peer \<noteq> (Pending, r')" for req r r'
    using fetch_ends [OF assms(2)] by (metis fst_conv)
  have "bridge_answer W cfg req peer pt wt \<noteq> None" for req
    by (auto simp: bridge_answer_def Let_def returns ends split: option.split prod.split sum.split poll.split)
  then show ?thesis by (simp add: handler_answer)
qed

end

subsection \<open>The HTTP/2 handler is a bridge\<close>

definition h2_fields :: "u16 \<Rightarrow> string \<Rightarrow> bytes \<Rightarrow> config \<Rightarrow> (string \<times> string) list" where
  "h2_fields st ctype bs cfg =
     [(''server'', server_name cfg), (''content-type'', ctype), (''content-length'', show_nat (length bs))]"

lemma h2_handler_answer: "h2_handle_stream W H cfg fr respond peer pt wt =
    map_option (deliver (\<lambda>st ctype bs. send_h2_response H respond st ctype bs cfg))
      (bridge_answer W cfg (h2_to_nwarp_request (the_std W) H fr) peer pt wt)"
  by (simp add: h2_handle_stream_def bridge_answer_def answer_defs relay_raw_def Let_def case_prod_beta
      split: option.split prod.split sum.split poll.split)

interpretation h2: bridge h2_to_nwarp_request send_h2_response h2_fields h2_handle_stream
  by unfold_locales
    (simp_all add: h2_handler_answer h2_to_nwarp_request_def send_h2_response_def h2_fields_def Let_def split: option.split)

subsection \<open>The documented behaviour of the \<open>http\<close> crate\<close>

definition header_value_ok :: "string \<Rightarrow> bool" where
  "header_value_ok v = list_all (\<lambda>c. byte c = 9 \<or> (32 \<le> byte c \<and> byte c \<noteq> 127)) v"

definition status_ok :: "u16 \<Rightarrow> bool" where
  "status_ok st = (100 \<le> st \<and> st < 1000)"

text \<open>
  \<open>to_str\<close> succeeds on visible ASCII only and gives the same characters; the builder succeeds
  exactly for a status of three digits and header values without control characters, and
  builds what it was given. (The bytes from 128 on are accepted by the crate, as here, although
  its documentation names visible ASCII only.)
\<close>

definition http_ok :: "http_crate \<Rightarrow> bool" where
  "http_ok H =
     ((\<forall>v s. value_to_str H v = Some s \<longrightarrow> s = v \<and> header_value_ok v) \<and>
      (\<forall>st hs. build_head H st hs =
         (if status_ok st \<and> list_all (\<lambda>(k, v). header_value_ok v) hs then Some (st, hs) else None)))"

definition http_sample :: http_crate where
  "http_sample = \<lparr>value_to_str = (\<lambda>v. if list_all (\<lambda>c. byte c = 9 \<or> (32 \<le> byte c \<and> byte c < 127)) v then Some v else None),
     build_head = (\<lambda>st hs. if status_ok st \<and> list_all (\<lambda>(k, v). header_value_ok v) hs then Some (st, hs) else None)\<rparr>"

lemma http_sample_ok: "http_ok http_sample"
  by (auto simp: http_ok_def http_sample_def header_value_ok_def list_all_iff)

lemma http_ok_build: "http_ok H \<Longrightarrow> build_head H st hs =
    (if status_ok st \<and> list_all (\<lambda>(k, v). header_value_ok v) hs then Some (st, hs) else None)"
  by (simp add: http_ok_def)

lemma header_value_no_LF: "header_value_ok v \<Longrightarrow> LF \<notin> set v"
  by (auto simp: header_value_ok_def list_all_iff)

lemma show_nat_header_value: "header_value_ok (show_nat n)"
  by (auto simp: header_value_ok_def list_all_iff dest: show_nat_digits)

lemma mime_for_header_value: "header_value_ok (mime_for p)"
  by (simp add: mime_for_def header_value_ok_def Let_def)

lemma octet_stream_value: "header_value_ok ''application/octet-stream''"
  by (simp add: header_value_ok_def)

lemma route_header_values:
  "status_ok (status_code (route fs req cfg)) \<and> header_value_ok (content_type (route fs req cfg)) \<and>
   resp_server_name (route fs req cfg) = server_name cfg"
  unfolding route_def Let_def
  by (auto simp: response_defs status_ok_def mime_for_header_value split: option.split) (simp_all add: header_value_ok_def)

subsection \<open>HTTP/2 properties\<close>

lemma frame_headers_ok:
  assumes "std_ok std" and "http_ok H" and "\<forall>(name, v) \<in> set fs. LF \<notin> set name" and "headers_ok m"
  shows "headers_ok (fold (\<lambda>(name, v) headers. case value_to_str H v of
     Some s \<Rightarrow> hm_insert (to_lowercase (uni_lower std) name) s headers | None \<Rightarrow> headers) fs m)"
  using assms(3,4)
proof (induction fs arbitrary: m)
  case (Cons f fs)
  obtain name v where f: "f = (name, v)" by (cases f)
  show ?case
  proof (cases "value_to_str H v")
    case None
    then show ?thesis using Cons by (simp add: f)
  next
    case (Some s)
    then have "LF \<notin> set s" using assms(2) header_value_no_LF by (auto simp: http_ok_def)
    moreover have "LF \<notin> set (to_lowercase (uni_lower std) name)"
      using Cons.prems(1) to_lowercase_LF [OF assms(1)] by (auto simp: f)
    ultimately show ?thesis using Cons Some headers_ok_insert by (simp add: f)
  qed
qed simp

text \<open>
  A request that arrives over HTTP/2 keeps the method and the path of the frame as they
  are (nothing is decoded, cut or refused), and its header map has one entry per name and no
  line feed in any name or value, so that it can be forwarded in the HTTP/1.1 syntax.
\<close>

theorem h2_request_ok:
  assumes "std_ok std" and "http_ok H" and "\<forall>(name, v) \<in> set (fr_fields fr). LF \<notin> set name"
  shows "req_method (h2_to_nwarp_request std H fr) = fr_method fr \<and>
    req_path (h2_to_nwarp_request std H fr) = fr_uri_path fr \<and>
    headers_ok (req_headers (h2_to_nwarp_request std H fr))"
  using frame_headers_ok [OF assms, of "[]"]
  by (simp add: h2_to_nwarp_request_def frame_headers_def headers_ok_def hm_ok_def)

text \<open>
  The truth of the log over HTTP/2: for a client that accepts the reply, the status of the
  head it is sent is the status of the only access line, and the stream is closed.
\<close>

theorem h2_log_truthful:
  assumes "http_ok H" and "h2_handle_stream W H cfg fr respond peer pt wt = Some t" and "reply t = Some s'"
    and "takes_head respond" and "takes_data respond" and "takes_end respond"
  shows "\<exists>st hs errs. got_head s' = Some (st, hs) \<and> got_end s' \<and> length errs \<le> 1 \<and>
    st_logged t = errs @ [LAccess (fr_method fr) (fr_uri_path fr) st peer]"
  by (rule h2.handler_truthful [OF assms(2-6)])
    (use assms(1) in \<open>auto simp: http_ok_build split: if_splits\<close>)

text \<open>
  C24: The task of an HTTP/2 stream panics exactly when the answer's status has not three digits
  or the server name or the content type cannot be a header value.
\<close>

theorem h2_panic_iff:
  assumes "http_ok H" and "bridge_answer W cfg (h2_to_nwarp_request (the_std W) H fr) peer pt wt = Some a"
  shows "\<exists>t. h2_handle_stream W H cfg fr respond peer pt wt = Some t \<and>
    (reply t = None \<longleftrightarrow> \<not> (100 \<le> an_status a \<and> an_status a < 1000) \<or>
       \<not> header_value_ok (server_name cfg) \<or> \<not> header_value_ok (an_type a))"
  using assms(2) h2.send_panics [of H respond "an_status a" "an_type a" "an_body a" cfg]
  by (simp add: h2_handler_answer deliver_def http_ok_build [OF assms(1)] h2_fields_def status_ok_def show_nat_header_value)

text \<open>
  C11: Static files are the same resource over HTTP/1.x and HTTP/2: for a request with the same
  method and path that no proxy or WASM prefix claims, the HTTP/2 client gets the status,
  server name, content type, length and body that the HTTP/1.x client gets, and the log lines
  are the same. (Both clients accept the reply, and the server name is a valid header value.)
\<close>

theorem h2_static_as_http1:
  assumes "http_ok H" and "parse (the_std W) input = Ready (Inr (req, rest))"
    and "fr_method fr = req_method req" and "fr_uri_path fr = req_path req"
    and "proxy_match_route pt (req_path req) = None" and "wasm_match_route wt (req_path req) = None"
    and "unbroken s" and "takes_head respond" and "takes_data respond" and "takes_end respond"
    and "header_value_ok (server_name cfg)"
  shows "\<exists>resp c t s'. handle_generic W cfg input s peer pt wt = Some c \<and> written (client c) = written s @ wire resp \<and>
    h2_handle_stream W H cfg fr respond peer pt wt = Some t \<and> reply t = Some s' \<and>
    got_head s' = Some (status_code resp, [(''server'', resp_server_name resp), (''content-type'', content_type resp),
       (''content-length'', show_nat (length (body resp)))]) \<and>
    got_data s' = body resp \<and> got_end s' \<and> logged c = st_logged t"
proof -
  let ?req = "h2_to_nwarp_request (the_std W) H fr" and ?resp = "route (the_fs W) req cfg"
  have same: "req_method ?req = req_method req" "req_path ?req = req_path req"
    using assms(3,4) by (simp_all add: h2_to_nwarp_request_def)
  then have route: "route (the_fs W) ?req cfg = ?resp" by (simp add: route_def full_path_def rel_path_of_def)
  have p: "proxy_match_entry pt (req_path req) = None"
    using assms(5) by (simp add: proxy_match_entry_route)
  have "status_ok (status_code ?resp)" "header_value_ok (content_type ?resp)" "resp_server_name ?resp = server_name cfg"
    using route_header_values by blast+
  then have "build_head H (status_code ?resp) (h2_fields (status_code ?resp) (content_type ?resp) (body ?resp) cfg) =
      Some (status_code ?resp, h2_fields (status_code ?resp) (content_type ?resp) (body ?resp) cfg)"
    using assms(1,11) by (simp add: http_ok_build h2_fields_def show_nat_header_value)
  note sent = h2.send_delivers [OF this assms(8-10)]
  let ?log = "[LAccess (req_method req) (req_path req) (status_code ?resp) peer]"
  let ?c = "\<lparr>client = s\<lparr>written := written s @ wire ?resp\<rparr>, logged = ?log, table_after = pt\<rparr>"
  let ?s' = "respond\<lparr>got_head := Some (status_code ?resp, h2_fields (status_code ?resp) (content_type ?resp) (body ?resp) cfg),
      got_data := body ?resp, got_end := True\<rparr>"
  let ?t = "\<lparr>reply = Some ?s', st_logged = ?log, st_table = pt\<rparr>"
  have c: "handle_generic W cfg input s peer pt wt = Some ?c" "written (client ?c) = written s @ wire ?resp"
    "logged ?c = ?log"
    using assms(2,6) p by (simp_all add: handle_generic_def serve_static_ok [OF assms(7)])
  have t: "h2_handle_stream W H cfg fr respond peer pt wt = Some ?t"
    using p assms(6) same route sent
    by (simp add: h2_handler_answer bridge_answer_def deliver_def answered_def Let_def)
  show ?thesis
    using route_header_values [of "the_fs W" req cfg]
    by (intro exI [of _ ?resp] exI [of _ ?c] exI [of _ ?t] exI [of _ ?s'] conjI c t) (simp_all add: c h2_fields_def)
qed

subsection \<open>Concrete streams\<close>

definition open_stream :: reply_stream where
  "open_stream = \<lparr>takes_head = True, takes_data = True, takes_end = True, got_head = None, got_data = [], got_end = False\<rparr>"

definition frame_get :: "string \<Rightarrow> frame_request" where
  "frame_get p = \<lparr>fr_method = ''GET'', fr_uri_path = p, fr_fields = [(''Accept'', ''*/*''), (''x'', [CHR 0xC3])]\<rparr>"

lemma frame_get_sel [simp]: "fr_method (frame_get p) = ''GET''" "fr_uri_path (frame_get p) = p"
  by (simp_all add: frame_get_def)

lemma open_stream_takes [simp]: "takes_head open_stream" "takes_data open_stream" "takes_end open_stream"
  by (simp_all add: open_stream_def)

lemma sample_server_name: "header_value_ok (server_name sample_cfg)"
  by (simp add: sample_cfg_def default_config_def header_value_ok_def)

theorem h2_request_ok_witness:
  "headers_ok (req_headers (h2_to_nwarp_request std_id http_sample (frame_get ''/'')))"
  using h2_request_ok [OF std_id_ok http_sample_ok, of "frame_get ''/''"] by (simp add: frame_get_def)

theorem h2_static_as_http1_witness:
  "\<exists>resp c t s'. handle_generic sample_world sample_cfg index_head open_sink ''p'' no_proxy hello_table = Some c \<and>
     written (client c) = wire resp \<and>
     h2_handle_stream sample_world http_sample sample_cfg (frame_get ''/'') open_stream ''p'' no_proxy hello_table = Some t \<and>
     reply t = Some s' \<and> got_data s' = body resp"
  using h2_static_as_http1 [OF http_sample_ok parse_index_head, of "frame_get ''/''" no_proxy hello_table
      open_sink open_stream sample_cfg "''p''"] open_sink_unbroken sample_server_name
  by (auto simp: get_request_def open_sink_def)

definition odd_net :: network where
  "odd_net = echo_net\<lparr>upstream_reply := (\<lambda>_ _. Replied (wire (new 42 ''Odd'' ''up'')))\<rparr>"

definition odd_world :: "(unit, hello_store) world" where
  "odd_world = sample_world\<lparr>the_net := odd_net\<rparr>"

definition fair_table :: proxy_table where
  "fair_table = \<lparr>pt_routes = [fair_route]\<rparr>"

lemma fair_match: "proxy_match_entry fair_table ''/api'' = Some (0, fair_route)"
  by code_simp

lemma odd_answer: "\<exists>a. bridge_answer odd_world sample_cfg (h2_to_nwarp_request std_id http_sample (frame_get ''/api''))
     ''p'' fair_table hello_table = Some a \<and> an_status a = 42"
proof -
  have "\<forall>t \<in> set (targets fair_route). healthy t" "targets fair_route \<noteq> []"
    by (simp_all add: fair_route_def sample_route_def)
  note pick = pick_upstream_all_healthy [OF this]
  have "extract_status (wire (new 42 ''Odd'' ''up'')) = 42" by (simp add: new_def)
  then show ?thesis
    by (simp add: bridge_answer_def h2_to_nwarp_request_def fair_match fetch_from_upstream_def pick odd_world_def
        odd_net_def echo_net_def answered_def split_raw_response_def Let_def)
qed

theorem h2_panic_iff_witness:
  "\<exists>t. h2_handle_stream odd_world http_sample sample_cfg (frame_get ''/api'') open_stream ''p'' fair_table hello_table = Some t \<and>
     reply t = None"
proof -
  have std: "the_std odd_world = std_id" by (simp add: odd_world_def)
  obtain a where a: "bridge_answer odd_world sample_cfg (h2_to_nwarp_request (the_std odd_world) http_sample (frame_get ''/api''))
     ''p'' fair_table hello_table = Some a" "an_status a = 42"
    using odd_answer by (auto simp: std)
  show ?thesis using h2_panic_iff [OF http_sample_ok a(1), of open_stream] a(2) by auto
qed

definition escaped_head :: instream where
  "escaped_head = \<lparr>avail = ''GET /%69ndex.html HTTP/1.1'' @ crlf @ crlf, ending = Eof\<rparr>"

lemma parse_escaped: "parse std_id escaped_head = Ready (Inr (get_request ''/index.html'', \<lparr>avail = [], ending = Eof\<rparr>))"
  by code_simp

lemma sample_statuses:
  "status_code (route (\<lambda>_. sample_fs) (get_request ''/index.html'') sample_cfg) = 200"
  "status_code (route (\<lambda>_. sample_fs) (get_request ''/%69ndex.html'') sample_cfg) = 404"
  by code_simp+

text \<open>
  The paths of HTTP/2 requests are not decoded: the same escaped request target is the
  page itself over HTTP/1.1 and not found over HTTP/2.
\<close>

theorem h2_escaped_path_differs:
  "(\<exists>c. handle_generic sample_world sample_cfg escaped_head open_sink ''p'' no_proxy hello_table = Some c \<and>
      logged c = [LAccess ''GET'' ''/index.html'' 200 ''p'']) \<and>
   (\<exists>t. h2_handle_stream sample_world http_sample sample_cfg (frame_get ''/%69ndex.html'') open_stream ''p''
        no_proxy hello_table = Some t \<and>
      st_logged t = [LAccess ''GET'' ''/%69ndex.html'' 404 ''p''])"
proof
  have w: "wasm_match_route hello_table ''/index.html'' = None" "wasm_match_route hello_table ''/%69ndex.html'' = None"
    by (simp_all add: hello_table_def wasm_match_route_def hello_route_def)
  have fs: "the_fs sample_world = (\<lambda>_. sample_fs)" by (simp add: sample_world_def)
  show "\<exists>c. handle_generic sample_world sample_cfg escaped_head open_sink ''p'' no_proxy hello_table = Some c \<and>
      logged c = [LAccess ''GET'' ''/index.html'' 200 ''p'']"
    using sample_statuses(1) w
    by (simp add: handle_generic_def parse_escaped serve_static_ok [OF open_sink_unbroken] fs get_request_def)
  have "route (\<lambda>_. sample_fs) (h2_to_nwarp_request std_id http_sample (frame_get ''/%69ndex.html'')) sample_cfg =
      route (\<lambda>_. sample_fs) (get_request ''/%69ndex.html'') sample_cfg"
    by (simp add: route_def full_path_def rel_path_of_def h2_to_nwarp_request_def get_request_def)
  then show "\<exists>t. h2_handle_stream sample_world http_sample sample_cfg (frame_get ''/%69ndex.html'') open_stream ''p''
        no_proxy hello_table = Some t \<and> st_logged t = [LAccess ''GET'' ''/%69ndex.html'' 404 ''p'']"
    using sample_statuses(2) w
    by (simp add: h2_handler_answer bridge_answer_def answer_defs fs Let_def h2_to_nwarp_request_def)
qed

lemma sample_h2: "\<exists>t s'. h2_handle_stream sample_world http_sample sample_cfg (frame_get ''/'') open_stream ''p''
    no_proxy hello_table = Some t \<and> reply t = Some s'"
  using route_header_values [of "the_fs sample_world" "h2_to_nwarp_request std_id http_sample (frame_get ''/'')" sample_cfg]
    sample_server_name
  by (simp add: h2_handler_answer bridge_answer_def answer_defs Let_def h2_to_nwarp_request_def send_h2_response_def
      http_ok_build [OF http_sample_ok] show_nat_header_value)

theorem h2_log_truthful_witness:
  "\<exists>st hs (t :: stream_task) (s' :: reply_stream). reply t = Some s' \<and> got_head s' = Some (st, hs) \<and> last (st_logged t) = LAccess ''GET'' ''/'' st ''p''"
proof -
  obtain t s' where t: "h2_handle_stream sample_world http_sample sample_cfg (frame_get ''/'') open_stream ''p''
    no_proxy hello_table = Some t" "reply t = Some s'" using sample_h2 by blast
  obtain st hs errs where "got_head s' = Some (st, hs)" "st_logged t = errs @ [LAccess ''GET'' ''/'' st ''p'']"
    using h2_log_truthful [OF http_sample_ok t] by auto
  then show ?thesis using t(2) by (intro exI [of _ st] exI [of _ hs] exI [of _ t] exI [of _ s']) simp
qed

subsection \<open>The accept loop\<close>

fun spawned :: "'r conn_action list \<Rightarrow> 'r list" where
  "spawned [] = []"
| "spawned (Spawn r # as) = r # spawned as"
| "spawned (Logs c # as) = spawned as"

text \<open>
  A connection serves every stream it accepts, in order, each in its own task; a stream error
  is logged and the loop goes on; nothing is served after a failed handshake.
\<close>

lemma h2_serve_spec:
  "spawned (h2_serve (Inr u) peer accepts) = List.map_filter (case_sum (\<lambda>_. None) Some) accepts"
  "length (h2_serve (Inr u) peer accepts) = length accepts"
  "spawned (h2_serve (Inl e) peer accepts) = []"
proof -
  have "spawned (h2_accept_loop peer accepts) = List.map_filter (case_sum (\<lambda>_. None) Some) accepts \<and>
    length (h2_accept_loop peer accepts) = length accepts"
    by (induction peer accepts rule: h2_accept_loop.induct) (simp_all add: map_filter_simps)
  then show "spawned (h2_serve (Inr u) peer accepts) = List.map_filter (case_sum (\<lambda>_. None) Some) accepts"
    "length (h2_serve (Inr u) peer accepts) = length accepts" by (simp_all add: h2_serve_def)
qed (simp add: h2_serve_def)

end
