(* ===== verification/Tls.thy ===== *)
theory Tls
  imports Http2
begin

section \<open>TLS (src/tls/mod.rs)\<close>

text \<open>
  Certificates and keys, the server configuration, and the HTTPS accept loop with its choice
  between HTTP/1.x and HTTP/2. The crates \<open>rustls\<close> and \<open>rustls_pemfile\<close> are the record
  \<open>tls_crate\<close> (\<open>only_tls13\<close> and \<open>single_cert\<close> are the errors of the configuration builder's
  fallible calls); \<open>files i\<close> is the file system as the \<open>i\<close>-th \<open>File::open\<close> sees it.
\<close>

record tls_crate =
  pem_certs :: "bytes \<Rightarrow> bytes list option"
  pem_pkcs8 :: "bytes \<Rightarrow> bytes list option"
  pem_rsa :: "bytes \<Rightarrow> bytes list option"
  only_tls13 :: "string option"
  single_cert :: "bytes list \<Rightarrow> bytes \<Rightarrow> string option"

type_synonym opener = "nat \<Rightarrow> string \<Rightarrow> bytes io_result"

record tls_config =
  tc_certs :: "bytes list"
  tc_key :: bytes
  tc_tls13_only :: bool
  tc_alpn :: "bytes list"
  tc_max_early_data :: u32

definition open_error :: "string \<Rightarrow> string \<Rightarrow> io_error \<Rightarrow> io_error" where
  "open_error what path e =
     io_err (err_kind e) (''could not open TLS '' @ what @ '' '' @ [CHR 0x27] @ path @ [CHR 0x27] @ '': '' @ err_msg e)"

definition load_certs :: "tls_crate \<Rightarrow> opener \<Rightarrow> string \<Rightarrow> bytes list io_result" where
  "load_certs T files path =
     (case files 0 path of
        Inl e \<Rightarrow> Inl (open_error ''cert'' path e)
      | Inr file \<Rightarrow>
          (case pem_certs T file of
             None \<Rightarrow> Inl (io_err InvalidData ''invalid certificate PEM'')
           | Some raw \<Rightarrow> Inr raw))"

text \<open>\<open>Vec::pop\<close> takes the last key of the file.\<close>

definition pop :: "'a list \<Rightarrow> 'a option" where
  "pop xs = (if xs = [] then None else Some (last xs))"

definition load_private_key :: "tls_crate \<Rightarrow> opener \<Rightarrow> string \<Rightarrow> bytes io_result" where
  "load_private_key T files path =
     (case files 1 path of
        Inl e \<Rightarrow> Inl (open_error ''key'' path e)
      | Inr file \<Rightarrow>
          (case pem_pkcs8 T file of
             None \<Rightarrow> Inl (io_err InvalidData ''invalid PKCS8 key PEM'')
           | Some pkcs8 \<Rightarrow>
               (case pop pkcs8 of
                  Some key \<Rightarrow> Inr key
                | None \<Rightarrow>
                    (case files 2 path of
                       Inl e \<Rightarrow> Inl (open_error ''key'' path e)
                     | Inr file2 \<Rightarrow>
                         (case pem_rsa T file2 of
                            None \<Rightarrow> Inl (io_err InvalidData ''invalid RSA key PEM'')
                          | Some rsa \<Rightarrow>
                              (case pop rsa of
                                 Some key \<Rightarrow> Inr key
                               | None \<Rightarrow> Inl (io_err InvalidData (''no usable private key found in '' @
                                   [CHR 0x27] @ path @ [CHR 0x27]))))))))"

definition build_tls_config :: "tls_crate \<Rightarrow> opener \<Rightarrow> config \<Rightarrow> tls_config io_result" where
  "build_tls_config T files cfg =
     (case load_certs T files (tls_cert cfg) of
        Inl e \<Rightarrow> Inl e
      | Inr certs \<Rightarrow>
          (case load_private_key T files (tls_key cfg) of
             Inl e \<Rightarrow> Inl e
           | Inr key \<Rightarrow>
               (case single_cert T certs key of
                  Some e \<Rightarrow> Inl (io_err InvalidData e)
                | None \<Rightarrow> Inr \<lparr>tc_certs = certs, tc_key = key, tc_tls13_only = False,
                               tc_alpn = [''h2'', ''http/1.1''], tc_max_early_data = 0\<rparr>)))"

subsection \<open>The accept loop\<close>

text \<open>What a TLS connection becomes: the protocol its task serves, or a log line.\<close>

datatype tls_task = ServesH2 string | ServesHttp1 string | HandshakeFailed log_call

definition tls_connection :: "string io_result \<Rightarrow> (string + bytes option) \<Rightarrow> tls_task" where
  "tls_connection peer_addr handshake =
     (let peer = (case peer_addr of Inr a \<Rightarrow> a | Inl _ \<Rightarrow> ''unknown'') in
      case handshake of
        Inl e \<Rightarrow> HandshakeFailed (LError (''TLS handshake failed for '' @ peer @ '': '' @ e))
      | Inr alpn_protocol \<Rightarrow>
          (let negotiated_h2 = (alpn_protocol = Some ''h2'') in
           if negotiated_h2 then ServesH2 peer else ServesHttp1 peer))"

fun tls_accept_loop :: "(io_error + string io_result \<times> (string + bytes option)) list \<Rightarrow> tls_task conn_action list" where
  "tls_accept_loop [] = []"
| "tls_accept_loop (Inr (peer_addr, handshake) # rest) = Spawn (tls_connection peer_addr handshake) # tls_accept_loop rest"
| "tls_accept_loop (Inl e # rest) =
     Logs (LError (''TLS connection accept failed: '' @ err_msg e)) # tls_accept_loop rest"

text \<open>\<open>run\<close>: the configuration, the socket, the line on standard output, and the loop.\<close>

definition tls_run :: "tls_crate \<Rightarrow> opener \<Rightarrow> (string \<Rightarrow> unit io_result) \<Rightarrow> config \<Rightarrow>
    (io_error + string io_result \<times> (string + bytes option)) list \<Rightarrow> (string \<times> tls_task conn_action list) io_result" where
  "tls_run T files bind cfg accepts =
     (case build_tls_config T files cfg of
        Inl e \<Rightarrow> Inl e
      | Inr tls \<Rightarrow>
          (let sock_addr = host cfg @ '':'' @ show_word (tls_port cfg) in
           case bind sock_addr of
             Inl e \<Rightarrow> Inl e
           | Inr _ \<Rightarrow> Inr (server_name cfg @ '' listening on https://'' @ sock_addr, tls_accept_loop accepts)))"

subsection \<open>Keys\<close>

lemma pop_simps [simp]: "pop [] = None" "pop (xs @ [x]) = Some x" "pop xs = None \<longleftrightarrow> xs = []"
  by (simp_all add: pop_def)

lemma pop_in: "pop xs = Some x \<Longrightarrow> x \<in> set xs"
  by (auto simp: pop_def split: if_splits)

text \<open>
  The private key that is used is the last PKCS#8 key of the file or, only if it has none,
  the last RSA key; a file that cannot be opened keeps its error kind, and a file with broken
  PEM or no key at all is invalid data.
\<close>

theorem load_private_key_spec:
  assumes "files 1 path = Inr file" and "files 2 path = Inr file"
  shows "(\<forall>ks k. pem_pkcs8 T file = Some (ks @ [k]) \<longrightarrow> load_private_key T files path = Inr k) \<and>
    (\<forall>ks k. pem_pkcs8 T file = Some [] \<and> pem_rsa T file = Some (ks @ [k]) \<longrightarrow> load_private_key T files path = Inr k) \<and>
    (pem_pkcs8 T file = None \<or> pem_pkcs8 T file = Some [] \<and> (pem_rsa T file = None \<or> pem_rsa T file = Some []) \<longrightarrow>
       (\<exists>e. load_private_key T files path = Inl e \<and> err_kind e = InvalidData))"
  using assms by (auto simp: load_private_key_def)

definition sample_tls :: tls_crate where
  "sample_tls = \<lparr>pem_certs = (\<lambda>b. Some [b]), pem_pkcs8 = (\<lambda>b. Some []), pem_rsa = (\<lambda>b. Some [''old'', ''new'']),
     only_tls13 = None, single_cert = (\<lambda>_ _. None)\<rparr>"

theorem load_private_key_spec_witness:
  "load_private_key sample_tls (\<lambda>_ _. Inr ''pem'') ''key.pem'' = Inr ''new''"
  using load_private_key_spec [of "\<lambda>_ _. Inr ''pem''" "''key.pem''" "''pem''" sample_tls]
  by (simp add: sample_tls_def)

subsection \<open>Dispatch\<close>

text \<open>
  The documented behaviour of ALPN: the protocol of a finished handshake, if any, is one the
  server advertises and the client offered. \<open>negotiate\<close> maps the two lists to it.
\<close>

definition alpn_ok :: "(bytes list \<Rightarrow> bytes list \<Rightarrow> bytes option) \<Rightarrow> bool" where
  "alpn_ok negotiate = (\<forall>server offered p. negotiate server offered = Some p \<longrightarrow> p \<in> set server \<and> p \<in> set offered)"

text \<open>
  C39: A TLS client is served HTTP/2 only if it offered \<open>h2\<close>, and HTTP/1.1 if it offered only
  that or nothing; a failed handshake serves nothing and leaves one error line.
\<close>

theorem tls_alpn_dispatch:
  assumes "alpn_ok negotiate" and "build_tls_config T files cfg = Inr tls"
  shows "(tls_connection (Inr peer) (Inr (negotiate (tc_alpn tls) offered)) =
        (if negotiate (tc_alpn tls) offered = Some ''h2'' then ServesH2 peer else ServesHttp1 peer)) \<and>
    (''h2'' \<notin> set offered \<longrightarrow> tls_connection (Inr peer) (Inr (negotiate (tc_alpn tls) offered)) = ServesHttp1 peer) \<and>
    (\<forall>p. negotiate (tc_alpn tls) offered = Some p \<longrightarrow> p = ''h2'' \<or> p = ''http/1.1'') \<and>
    tls_connection (Inr peer) (Inl e) = HandshakeFailed (LError (''TLS handshake failed for '' @ peer @ '': '' @ e))"
proof -
  have "tc_alpn tls = [''h2'', ''http/1.1'']"
    using assms(2) by (auto simp: build_tls_config_def split: sum.splits option.splits)
  then have neg: "p \<in> set offered \<and> (p = ''h2'' \<or> p = ''http/1.1'')" if "negotiate (tc_alpn tls) offered = Some p" for p
    using assms(1) that unfolding alpn_ok_def by fastforce
  then show ?thesis by (auto simp: tls_connection_def Let_def)
qed

theorem tls_alpn_dispatch_witness:
  "tls_connection (Inr ''p'') (Inr (find (\<lambda>p. p \<in> set [''http/1.1'']) [''h2'', ''http/1.1''])) = ServesHttp1 ''p''"
proof -
  have "alpn_ok (\<lambda>server offered. find (\<lambda>p. p \<in> set offered) server)"
    by (auto simp: alpn_ok_def find_Some_iff)
  moreover have "build_tls_config sample_tls (\<lambda>_ _. Inr ''pem'') default_config =
      Inr \<lparr>tc_certs = [''pem''], tc_key = ''new'', tc_tls13_only = False, tc_alpn = [''h2'', ''http/1.1''],
           tc_max_early_data = 0\<rparr>"
    by (simp add: build_tls_config_def load_certs_def load_private_key_def sample_tls_def pop_def)
  ultimately show ?thesis
    using tls_alpn_dispatch [where negotiate = "\<lambda>server offered. find (\<lambda>p. p \<in> set offered) server"
        and offered = "[''http/1.1'']" and peer = "''p''"] by fastforce
qed

end
