(* ===== verification/Http3.thy ===== *)
theory Http3
  imports Tls
begin

section \<open>HTTP/3 over QUIC (src/http3/mod.rs)\<close>

text \<open>
  The QUIC configuration, the listener and its connections, and the stream handler, an
  instance of the same \<open>bridge\<close> interface as the HTTP/2 one. The crates \<open>quinn\<close>, \<open>h3\<close> and
  \<open>rustls\<close> are parameters: the results of the calls the code waits for.
\<close>

definition build_quic_tls_config :: "tls_crate \<Rightarrow> opener \<Rightarrow> config \<Rightarrow> tls_config io_result" where
  "build_quic_tls_config T files cfg =
     (case load_certs T files (tls_cert cfg) of
        Inl e \<Rightarrow> Inl e
      | Inr certs \<Rightarrow>
          (case load_private_key T files (tls_key cfg) of
             Inl e \<Rightarrow> Inl e
           | Inr key \<Rightarrow>
               (case only_tls13 T of
                  Some e \<Rightarrow> Inl (io_err InvalidData e)
                | None \<Rightarrow>
                    (case single_cert T certs key of
                       Some e \<Rightarrow> Inl (io_err InvalidData e)
                     | None \<Rightarrow> Inr \<lparr>tc_certs = certs, tc_key = key, tc_tls13_only = True,
                                    tc_alpn = [''h3''], tc_max_early_data = 0xFFFFFFFF\<rparr>))))"

subsection \<open>Streams\<close>

definition h3_to_nwarp_request :: "std_params \<Rightarrow> http_crate \<Rightarrow> frame_request \<Rightarrow> request" where
  "h3_to_nwarp_request std H fr =
     \<lparr>req_method = fr_method fr, req_path = fr_uri_path fr, req_version = ''HTTP/3'',
      req_headers = frame_headers std H (fr_fields fr)\<rparr>"

definition send_h3_response :: "http_crate \<Rightarrow> reply_stream \<Rightarrow> u16 \<Rightarrow> string \<Rightarrow> bytes \<Rightarrow> config \<Rightarrow>
    reply_stream option" where
  "send_h3_response H stream status ctype bs cfg =
     (case build_head H status [(''server'', server_name cfg), (''content-type'', ctype)] of
        None \<Rightarrow> None
      | Some built \<Rightarrow>
          Some (if \<not> takes_head stream then stream
                else (let s = stream\<lparr>got_head := Some built\<rparr>;
                          s = (if takes_data s then s\<lparr>got_data := bs\<rparr> else s)
                      in if takes_end s then s\<lparr>got_end := True\<rparr> else s)))"

definition h3_handle_stream :: "('m, 'g) world \<Rightarrow> http_crate \<Rightarrow> config \<Rightarrow> frame_request \<Rightarrow> reply_stream \<Rightarrow>
    string \<Rightarrow> proxy_table \<Rightarrow> 'm wasm_table \<Rightarrow> stream_task option" where
  "h3_handle_stream W H cfg h3_request stream peer pt wt =
     (let req = h3_to_nwarp_request (the_std W) H h3_request;
          meth = req_method req; path = req_path req in
      case proxy_match_entry pt path of
        Some (i, r) \<Rightarrow>
          (case relay_raw (the_std W) (the_net W) req r peer of
             (Pending, r) \<Rightarrow> None
           | (Ready (Inr raw_bytes), r) \<Rightarrow>
               (let (status, bs) = split_raw_response raw_bytes in
                Some \<lparr>reply = send_h3_response H stream status ''application/octet-stream'' bs cfg,
                      st_logged = [LAccess meth path status peer], st_table = set_route i r pt\<rparr>)
           | (Ready (Inl e), r) \<Rightarrow>
               if err_kind e = NotConnected then
                 Some \<lparr>reply = send_h3_response H stream 503 ''text/html; charset=utf-8''
                                 (short_page ''503 Service Unavailable'' cfg) cfg,
                       st_logged = [LError (''no healthy upstream for '' @ meth @ '' '' @ path),
                                    LAccess meth path 503 peer], st_table = set_route i r pt\<rparr>
               else
                 Some \<lparr>reply = send_h3_response H stream 502 ''text/html; charset=utf-8''
                                 (short_page ''502 Bad Gateway'' cfg) cfg,
                       st_logged = [LError (''proxy upstream error for '' @ meth @ '' '' @ path @ '' -> '' @ err_msg e),
                                    LAccess meth path 502 peer], st_table = set_route i r pt\<rparr>)
      | None \<Rightarrow>
          (case wasm_match_route wt path of
             Some m \<Rightarrow>
               (case invoke (the_wasm W) m meth path of
                  None \<Rightarrow> None
                | Some (Inr (status, bs)) \<Rightarrow>
                    Some \<lparr>reply = send_h3_response H stream status ''text/plain; charset=utf-8'' bs cfg,
                          st_logged = [LAccess meth path status peer], st_table = pt\<rparr>
                | Some (Inl e) \<Rightarrow>
                    Some \<lparr>reply = send_h3_response H stream 500 ''text/html; charset=utf-8''
                                    (short_page ''500 Internal Server Error'' cfg) cfg,
                          st_logged = [LError (''WASM handler error for '' @ meth @ '' '' @ path @ '' -> '' @ e),
                                       LAccess meth path 500 peer], st_table = pt\<rparr>)
           | None \<Rightarrow>
               (let response = route (the_fs W) req cfg in
                Some \<lparr>reply = send_h3_response H stream (status_code response) (content_type response)
                                (body response) cfg,
                      st_logged = [LAccess meth path (status_code response) peer], st_table = pt\<rparr>)))"

subsection \<open>Connections and the listener\<close>

text \<open>
  The loop over the streams of a connection; \<open>Inr None\<close> is the peer's orderly end. A list that
  ends otherwise is a connection that is still open.
\<close>

fun h3_accept_loop :: "string \<Rightarrow> (string + 'r option) list \<Rightarrow> 'r conn_action list" where
  "h3_accept_loop peer [] = []"
| "h3_accept_loop peer (Inr (Some req) # rest) = Spawn req # h3_accept_loop peer rest"
| "h3_accept_loop peer (Inr None # rest) = []"
| "h3_accept_loop peer (Inl e # rest) = [Logs (LError (''HTTP/3 stream error for '' @ peer @ '': '' @ e))]"

text \<open>The task of one QUIC connection: the handshake gives the peer, then HTTP/3 is set up.\<close>

definition h3_connection :: "(string + string) \<Rightarrow> (string + unit) \<Rightarrow> (string + 'r option) list \<Rightarrow> 'r conn_action list" where
  "h3_connection connecting setup accepts =
     (case connecting of
        Inl e \<Rightarrow> [Logs (LError (''QUIC handshake failed: '' @ e))]
      | Inr peer \<Rightarrow>
          (case setup of
             Inl e \<Rightarrow> [Logs (LError (''HTTP/3 setup failed for '' @ peer @ '': '' @ e))]
           | Inr _ \<Rightarrow> h3_accept_loop peer accepts))"

text \<open>
  \<open>run\<close>: the configuration, the address, the endpoint; then one task per connection, each
  given by the results it will wait for. The addresses \<open>parse_addr\<close> accepts (it returns the
  address as it is displayed) and the endpoint are parameters.
\<close>

definition h3_run :: "tls_crate \<Rightarrow> opener \<Rightarrow> (string \<Rightarrow> string + string) \<Rightarrow> (tls_config \<Rightarrow> string \<Rightarrow> unit io_result) \<Rightarrow>
    config \<Rightarrow> ((string + string) \<times> (string + unit) \<times> (string + 'r option) list) list \<Rightarrow>
    (string \<times> 'r conn_action list list) io_result" where
  "h3_run T files parse_addr endpoint cfg connections =
     (case build_quic_tls_config T files cfg of
        Inl e \<Rightarrow> Inl e
      | Inr quic_tls_config \<Rightarrow>
          (case parse_addr (host cfg @ '':'' @ show_word (tls_port cfg)) of
             Inl e \<Rightarrow> Inl (io_err InvalidInput (''bad bind address: '' @ e))
           | Inr sock_addr \<Rightarrow>
               (case endpoint quic_tls_config sock_addr of
                  Inl e \<Rightarrow> Inl e
                | Inr _ \<Rightarrow> Inr (server_name cfg @ '' listening on https://'' @ sock_addr @ '' (HTTP/3, QUIC/UDP)'',
                     map (\<lambda>(connecting, setup, accepts). h3_connection connecting setup accepts) connections))))"

subsection \<open>The HTTP/3 handler is a bridge\<close>

definition h3_fields :: "u16 \<Rightarrow> string \<Rightarrow> bytes \<Rightarrow> config \<Rightarrow> (string \<times> string) list" where
  "h3_fields st ctype bs cfg = [(''server'', server_name cfg), (''content-type'', ctype)]"

lemma h3_handler_answer: "h3_handle_stream W H cfg fr respond peer pt wt =
    map_option (deliver (\<lambda>st ctype bs. send_h3_response H respond st ctype bs cfg))
      (bridge_answer W cfg (h3_to_nwarp_request (the_std W) H fr) peer pt wt)"
  by (simp add: h3_handle_stream_def bridge_answer_def answer_defs relay_raw_def Let_def case_prod_beta
      split: option.split prod.split sum.split poll.split)

interpretation h3: bridge h3_to_nwarp_request send_h3_response h3_fields h3_handle_stream
  by unfold_locales
    (simp_all add: h3_handler_answer h3_to_nwarp_request_def send_h3_response_def h3_fields_def Let_def split: option.split)

subsection \<open>One answer for both protocols\<close>

lemma request_text_version: "request_text std (r\<lparr>req_version := v\<rparr>) a p = request_text std r a p"
  by (simp add: request_text_def)

lemma fetch_version: "fetch_from_upstream std net (r\<lparr>req_version := v\<rparr>) t p = fetch_from_upstream std net r t p"
  unfolding fetch_from_upstream_def request_text_version ..

lemma route_version: "route fs (r\<lparr>req_version := v\<rparr>) cfg = route fs r cfg"
  by (simp add: route_def full_path_def rel_path_of_def)

lemma version_other: "req_method (r\<lparr>req_version := v\<rparr>) = req_method r" "req_path (r\<lparr>req_version := v\<rparr>) = req_path r"
  by simp_all

lemma bridge_answer_version: "bridge_answer W cfg (r\<lparr>req_version := v\<rparr>) peer pt wt = bridge_answer W cfg r peer pt wt"
  unfolding bridge_answer_def answered_def failed_def about_def fetch_version route_version version_other ..

lemma h3_request_version: "h3_to_nwarp_request std H fr = (h2_to_nwarp_request std H fr)\<lparr>req_version := ''HTTP/3''\<rparr>"
  by (simp add: h2_to_nwarp_request_def h3_to_nwarp_request_def)

text \<open>
  C6: HTTP/2 and HTTP/3 give the same answer: for the same request, tables and world the two
  handlers leave the same log and the same table, and to a client that accepts the reply they
  send the same status, server name, content type and body (HTTP/2 also the length); over
  both, the last log call is the access line, with the status that was sent.
\<close>

theorem h3_answers_as_h2:
  assumes "http_ok H" and "h2_handle_stream W H cfg fr respond peer pt wt = Some t2"
    and "takes_head respond" and "takes_data respond" and "takes_end respond"
  shows "\<exists>t3. h3_handle_stream W H cfg fr respond peer pt wt = Some t3 \<and>
    st_logged t3 = st_logged t2 \<and> st_table t3 = st_table t2 \<and> (reply t3 = None \<longleftrightarrow> reply t2 = None) \<and>
    (\<forall>s2 s3. reply t2 = Some s2 \<longrightarrow> reply t3 = Some s3 \<longrightarrow>
       got_data s3 = got_data s2 \<and> got_end s3 = got_end s2 \<and>
       (\<exists>st hs n. got_head s3 = Some (st, hs) \<and> got_head s2 = Some (st, hs @ [(''content-length'', n)]) \<and>
          last (st_logged t3) = LAccess (fr_method fr) (fr_uri_path fr) st peer))"
proof -
  obtain a where a: "bridge_answer W cfg (h2_to_nwarp_request (the_std W) H fr) peer pt wt = Some a"
      "t2 = deliver (\<lambda>st ctype bs. send_h2_response H respond st ctype bs cfg) a"
    using assms(2) by (auto simp: h2_handler_answer)
  let ?t3 = "deliver (\<lambda>st ctype bs. send_h3_response H respond st ctype bs cfg) a"
  have t3: "h3_handle_stream W H cfg fr respond peer pt wt = Some ?t3"
    using a(1) by (simp add: h3_handler_answer h3_request_version bridge_answer_version)
  obtain errs where log: "an_logged a = errs @ [LAccess (fr_method fr) (fr_uri_path fr) (an_status a) peer]"
    using answer_log [OF a(1)] by (auto simp: h2_to_nwarp_request_def)
  let ?f2 = "h2_fields (an_status a) (an_type a) (an_body a) cfg"
    and ?f3 = "h3_fields (an_status a) (an_type a) (an_body a) cfg"
  have f: "?f2 = ?f3 @ [(''content-length'', show_nat (length (an_body a)))]"
    by (simp add: h2_fields_def h3_fields_def)
  have b: "build_head H (an_status a) ?f2 = map_option (\<lambda>_. (an_status a, ?f2)) (build_head H (an_status a) ?f3)"
    using assms(1) by (simp add: http_ok_build f show_nat_header_value)
  show ?thesis
  proof (cases "build_head H (an_status a) ?f3")
    case None
    then have "send_h3_response H respond (an_status a) (an_type a) (an_body a) cfg = None"
      "send_h2_response H respond (an_status a) (an_type a) (an_body a) cfg = None"
      using b by (simp_all add: h2.send_panics h3.send_panics)
    then show ?thesis using t3 a(2) by (simp add: deliver_def)
  next
    case (Some h)
    then have "h = (an_status a, ?f3)" using assms(1) by (simp add: http_ok_build split: if_splits)
    then have "send_h3_response H respond (an_status a) (an_type a) (an_body a) cfg =
        Some (respond\<lparr>got_head := Some (an_status a, ?f3), got_data := an_body a, got_end := True\<rparr>)"
      using h3.send_delivers [OF Some assms(3-5)] by simp
    moreover have "send_h2_response H respond (an_status a) (an_type a) (an_body a) cfg =
        Some (respond\<lparr>got_head := Some (an_status a, ?f2), got_data := an_body a, got_end := True\<rparr>)"
      using h2.send_delivers [OF _ assms(3-5), of H "an_status a" "an_type a" "an_body a" cfg] b Some by simp
    ultimately show ?thesis using t3 a(2) log f by (simp add: deliver_def)
  qed
qed

theorem h3_answers_as_h2_witness:
  "\<exists>t2 t3. h2_handle_stream sample_world http_sample sample_cfg (frame_get ''/'') open_stream ''p'' no_proxy hello_table = Some t2 \<and>
     h3_handle_stream sample_world http_sample sample_cfg (frame_get ''/'') open_stream ''p'' no_proxy hello_table = Some t3 \<and>
     st_logged t3 = st_logged t2"
proof -
  obtain t s' where t: "h2_handle_stream sample_world http_sample sample_cfg (frame_get ''/'') open_stream ''p''
    no_proxy hello_table = Some t" "reply t = Some s'" using sample_h2 by blast
  show ?thesis using h3_answers_as_h2 [OF http_sample_ok t(1)] t(1) by auto
qed

subsection \<open>The loops\<close>

text \<open>An HTTP/3 connection serves the streams up to the first error or the peer's end.\<close>

lemma h3_serves_until_error:
  "spawned (h3_accept_loop peer (map (Inr \<circ> Some) reqs @ rest)) = reqs @ spawned (h3_accept_loop peer rest)"
  "spawned (h3_accept_loop peer (Inl e # rest)) = []" "h3_accept_loop peer (Inr None # rest) = []"
  by (induction reqs) simp_all

text \<open>The configurations for TCP and QUIC share certificate and key, and differ in the protocols.\<close>

lemma quic_config_shares_identity:
  "only_tls13 T = None \<Longrightarrow> build_quic_tls_config T files cfg =
     map_sum (\<lambda>e. e) (\<lambda>c. c\<lparr>tc_tls13_only := True, tc_alpn := [''h3''], tc_max_early_data := 0xFFFFFFFF\<rparr>)
       (build_tls_config T files cfg)"
  by (simp add: build_quic_tls_config_def build_tls_config_def split: sum.split option.split)

end
