(* ===== verification/Listener.thy ===== *)
theory Listener
  imports Http3
begin

section \<open>Startup, accept loop and hot reload (src/server/listener.rs)\<close>

text \<open>
  \<open>run\<close> builds the tables, binds and starts the other tasks; the watcher reloads the routes
  when the file changes, in two stores that other tasks interleave with. A proxy table is
  shared by reference (its flags and counters change in place), so the state keeps every table
  that was built and the pointers to them.
\<close>

subsection \<open>State\<close>

text \<open>Where the watcher is: asleep, or between the load of the new configuration and a store.\<close>

datatype 'm watcher = Sleeping | StoreProxy nat "'m wasm_table" log_call | StoreWasm "'m wasm_table" log_call

text \<open>A request between its two loads, and when it knows its handler; with \<open>Forwarding\<close> it has picked.\<close>

datatype 'm handler = ByProxy nat | Forwarding nat | ByWasm "'m wasm_route" | ByStatic
datatype 'm in_flight = Absent | Unmatched string | Dispatched string "'m handler"

record checker =
  ck_table :: nat
  ck_interval :: u64
  ck_timeout :: u64

record 'm server =
  sv_tables :: "proxy_table list"
  sv_proxy :: nat
  sv_wasm :: "'m wasm_table"
  sv_checkers :: "checker list"
  sv_watcher :: "'m watcher"
  sv_modified :: "nat option"
  sv_loaded :: config
  sv_log :: "log_call list"
  sv_requests :: "nat \<Rightarrow> 'm in_flight"

text \<open>What stays fixed while the server runs.\<close>

record ('m, 'g) srv_env =
  su_wasm :: "('m, 'g) wasmi"
  su_std :: std_params
  su_path :: string
  su_interval :: u64
  su_timeout :: u64

subsection \<open>Startup\<close>

definition spawn_health_checker :: "nat \<Rightarrow> u64 \<Rightarrow> u64 \<Rightarrow> 'm server \<Rightarrow> 'm server" where
  "spawn_health_checker k interval timeout s = s\<lparr>sv_checkers := sv_checkers s @ [\<lparr>ck_table = k, ck_interval = interval, ck_timeout = timeout\<rparr>]\<rparr>"

fun join_comma :: "string list \<Rightarrow> string" where
  "join_comma [] = []"
| "join_comma [u] = u"
| "join_comma (u # us) = u @ '', '' @ join_comma us"

definition listener_banner :: "config \<Rightarrow> string \<Rightarrow> string list" where
  "listener_banner cfg config_path =
     [server_name cfg @ '' listening on http://'' @ host cfg @ '':'' @ show_word (port cfg),
      ''Serving files from: '' @ document_root cfg,
      ''Runtime worker threads: '' @ show_word (worker_threads cfg),
      ''Concurrency model: async event loop (Tokio, epoll on Linux)''] @
     (if proxy_routes cfg = [] then []
      else map (\<lambda>(pre, upstreams). ''Proxying '' @ pre @ '' -> '' @ join_comma upstreams) (proxy_routes cfg) @
        [''Health checks: every '' @ show_word (health_check_interval_secs cfg) @ ''s, '' @
         show_word (health_check_timeout_secs cfg) @ ''s timeout'']) @
     (if wasm_routes cfg = [] then []
      else map (\<lambda>(pre, path). ''WASM handler '' @ pre @ '' -> '' @ path) (wasm_routes cfg)) @
     [''Config hot-reload: watching '' @ config_path @ '' for proxy_route/wasm_route changes'']"

text \<open>The state when the accept loop starts; \<open>modified\<close> is the file's time as the watcher first reads it.\<close>

definition initial_server :: "('m, 'g) wasmi \<Rightarrow> (string \<Rightarrow> bytes io_result) \<Rightarrow> config \<Rightarrow> nat option \<Rightarrow> 'm server" where
  "initial_server w read_file cfg modified =
     (let pt = proxy_from_config cfg;
          s = \<lparr>sv_tables = [pt], sv_proxy = 0, sv_wasm = fst (wasm_from_config w read_file cfg), sv_checkers = [],
               sv_watcher = Sleeping, sv_modified = modified, sv_loaded = cfg, sv_log = [], sv_requests = (\<lambda>_. Absent)\<rparr>
      in if has_routes pt
         then spawn_health_checker 0 (health_check_interval_secs cfg) (health_check_timeout_secs cfg) s
         else s)"

text \<open>The tasks beside the accept loop.\<close>

datatype side_task = ConfigWatcher | TlsListener | QuicListener

definition side_tasks :: "config \<Rightarrow> side_task list" where
  "side_tasks cfg = ConfigWatcher # (if tls_enabled cfg then [TlsListener, QuicListener] else [])"

text \<open>A side listener that cannot start only logs; the plain HTTP listener goes on.\<close>

definition side_failure :: "side_task \<Rightarrow> io_error \<Rightarrow> log_call list" where
  "side_failure t e = (case t of
     ConfigWatcher \<Rightarrow> []
   | TlsListener \<Rightarrow> [LError (''TLS listener failed to start: '' @ err_msg e)]
   | QuicListener \<Rightarrow> [LError (''HTTP/3 (QUIC) listener failed to start: '' @ err_msg e)])"

record 'm started =
  on_server :: "'m server"
  on_stdout :: "string list"
  on_tasks :: "side_task list"

text \<open>
  The result of starting up, the lines on standard error (the modules that did not load) and
  the files touched; the binding comes after the tables are built.
\<close>

definition run :: "('m, 'g) wasmi \<Rightarrow> (string \<Rightarrow> bytes io_result) \<Rightarrow> (string \<Rightarrow> unit io_result) \<Rightarrow> config \<Rightarrow> string \<Rightarrow>
    nat option \<Rightarrow> log_world \<Rightarrow> 'm started io_result \<times> string list \<times> log_world" where
  "run w read_file bind cfg config_path modified lw =
     (let (lg, lw) = logger_new (access_log cfg) (error_log cfg) lw;
          (wt, warnings) = wasm_from_config w read_file cfg
      in (case bind (host cfg @ '':'' @ show_word (port cfg)) of
            Inl e \<Rightarrow> Inl e
          | Inr _ \<Rightarrow>
              Inr \<lparr>on_server = initial_server w read_file cfg modified,
                   on_stdout = listener_banner cfg config_path,
                   on_tasks = side_tasks cfg\<rparr>, warnings, lw))"

fun accept_loop :: "(io_error + 'c) list \<Rightarrow> 'c conn_action list" where
  "accept_loop [] = []"
| "accept_loop (Inr stream # rest) = Spawn stream # accept_loop rest"
| "accept_loop (Inl e # rest) = Logs (LError (''connection failed: '' @ err_msg e)) # accept_loop rest"

subsection \<open>The watcher\<close>

definition reload_message :: "string \<Rightarrow> config \<Rightarrow> log_call" where
  "reload_message config_path cfg =
     LError (''config reloaded from '' @ config_path @ '' (proxy_routes: '' @ show_nat (length (proxy_routes cfg)) @
       '', wasm_routes: '' @ show_nat (length (wasm_routes cfg)) @ '')'')"

text \<open>
  One wake-up: \<open>modified\<close> is the outcome of reading the modification time. If it is new, the
  file is loaded, the tables are built and the health checker is started; nothing is stored yet.
\<close>

definition watcher_wakes :: "('m, 'g) srv_env \<Rightarrow> nat option \<Rightarrow> config_file \<Rightarrow> (string \<Rightarrow> bytes io_result) \<Rightarrow>
    'm server \<Rightarrow> 'm server" where
  "watcher_wakes E modified file read_file s =
     (case modified of
        None \<Rightarrow> s
      | Some m \<Rightarrow>
          if sv_modified s = Some m then s
          else
            (let new_cfg = fst (load (su_std E) (su_path E) file);
                 new_table = proxy_from_config new_cfg;
                 new_wasm = fst (wasm_from_config (su_wasm E) read_file new_cfg);
                 k = length (sv_tables s);
                 s = s\<lparr>sv_modified := Some m, sv_loaded := new_cfg, sv_tables := sv_tables s @ [new_table]\<rparr>;
                 s = (if has_routes new_table then spawn_health_checker k (su_interval E) (su_timeout E) s else s)
             in s\<lparr>sv_watcher := StoreProxy k new_wasm (reload_message (su_path E) new_cfg)\<rparr>))"

definition store_proxy :: "nat \<Rightarrow> 'm wasm_table \<Rightarrow> log_call \<Rightarrow> 'm server \<Rightarrow> 'm server" where
  "store_proxy k wt msg s = s\<lparr>sv_proxy := k, sv_watcher := StoreWasm wt msg\<rparr>"

definition store_wasm :: "'m wasm_table \<Rightarrow> log_call \<Rightarrow> 'm server \<Rightarrow> 'm server" where
  "store_wasm wt msg s = s\<lparr>sv_wasm := wt, sv_watcher := Sleeping, sv_log := sv_log s @ [msg]\<rparr>"

subsection \<open>Requests and health checkers\<close>

text \<open>The two loads of a request (src/server/connection.rs and the HTTP/2 and HTTP/3 handlers).\<close>

definition load_proxy :: "nat \<Rightarrow> string \<Rightarrow> 'm server \<Rightarrow> 'm server" where
  "load_proxy i p s = s\<lparr>sv_requests := (sv_requests s)(i :=
     (case proxy_match_route (sv_tables s ! sv_proxy s) p of
        Some _ \<Rightarrow> Dispatched p (ByProxy (sv_proxy s)) | None \<Rightarrow> Unmatched p))\<rparr>"

definition load_wasm :: "nat \<Rightarrow> string \<Rightarrow> 'm server \<Rightarrow> 'm server" where
  "load_wasm i p s = s\<lparr>sv_requests := (sv_requests s)(i := Dispatched p
     (case wasm_match_route (sv_wasm s) p of Some r \<Rightarrow> ByWasm r | None \<Rightarrow> ByStatic))\<rparr>"

text \<open>The pick of a proxied request on the table it loaded, whichever table is current now.\<close>

definition pick_on :: "nat \<Rightarrow> nat \<Rightarrow> string \<Rightarrow> 'm server \<Rightarrow> 'm server" where
  "pick_on i k p s = (case proxy_match_entry (sv_tables s ! k) p of
     None \<Rightarrow> s
   | Some (j, r) \<Rightarrow> s\<lparr>sv_tables := (sv_tables s)[k := set_route j (snd (pick_upstream r)) (sv_tables s ! k)],
       sv_requests := (sv_requests s)(i := Dispatched p (Forwarding k))\<rparr>)"

text \<open>One probe of a checker: the flag of target \<open>l\<close> of route \<open>j\<close> of the table it was given.\<close>

definition probe_target :: "(string \<Rightarrow> connect_outcome) \<Rightarrow> u64 \<Rightarrow> nat \<Rightarrow> nat \<Rightarrow> proxy_table \<Rightarrow> proxy_table" where
  "probe_target net timeout j l t =
     (let r = pt_routes t ! j in
      set_route j (r\<lparr>targets := (targets r)[l := check_target net timeout (targets r ! l)]\<rparr>) t)"

definition probe :: "checker \<Rightarrow> nat \<Rightarrow> nat \<Rightarrow> (string \<Rightarrow> connect_outcome) \<Rightarrow> 'm server \<Rightarrow> 'm server" where
  "probe c j l net s = s\<lparr>sv_tables := (sv_tables s)[ck_table c :=
     probe_target net (ck_timeout c) j l (sv_tables s ! ck_table c)]\<rparr>"

subsection \<open>Steps\<close>

text \<open>
  Any task may take the next step. A checker may probe any of its targets next, which covers
  the order of its rounds (\<open>health_round\<close>); a request may leave at any time, answered or cut off.
\<close>

inductive srv_step :: "('m, 'g) srv_env \<Rightarrow> 'm server \<Rightarrow> 'm server \<Rightarrow> bool" for E where
  wakes: "sv_watcher s = Sleeping \<Longrightarrow> srv_step E s (watcher_wakes E modified file read_file s)"
| stores_proxy: "sv_watcher s = StoreProxy k wt msg \<Longrightarrow> srv_step E s (store_proxy k wt msg s)"
| stores_wasm: "sv_watcher s = StoreWasm wt msg \<Longrightarrow> srv_step E s (store_wasm wt msg s)"
| loads_proxy: "sv_requests s i = Absent \<Longrightarrow> srv_step E s (load_proxy i p s)"
| loads_wasm: "sv_requests s i = Unmatched p \<Longrightarrow> srv_step E s (load_wasm i p s)"
| picks: "sv_requests s i = Dispatched p (ByProxy k) \<Longrightarrow> srv_step E s (pick_on i k p s)"
| leaves: "sv_requests s i = Dispatched p h \<Longrightarrow>
    srv_step E s (s\<lparr>sv_requests := (sv_requests s)(i := Absent)\<rparr>)"
| probes: "c \<in> set (sv_checkers s) \<Longrightarrow> j < length (pt_routes (sv_tables s ! ck_table c)) \<Longrightarrow>
    l < length (targets (pt_routes (sv_tables s ! ck_table c) ! j)) \<Longrightarrow> srv_step E s (probe c j l net s)"

inductive_cases srv_step_cases: "srv_step E s t"

subsection \<open>The shape of a table\<close>

text \<open>What of a table never changes: prefixes and addresses, not flags and counters.\<close>

definition shape :: "proxy_table \<Rightarrow> (string \<times> string list) list" where
  "shape t = map (\<lambda>r. (route_prefix r, map addr (targets r))) (pt_routes t)"

lemma shape_set_route:
  assumes "route_prefix r = route_prefix (pt_routes t ! j)" "map addr (targets r) = map addr (targets (pt_routes t ! j))"
  shows "shape (set_route j r t) = shape t"
  unfolding shape_def set_route_def using assms
  by (cases "j < length (pt_routes t)") (auto simp: map_update list_update_same_conv list_update_beyond)

lemma shape_pick: "proxy_match_entry t p = Some (j, r) \<Longrightarrow> shape (set_route j (snd (pick_upstream r)) t) = shape t"
  using proxy_match_entry_nth [of t p j r] pick_upstream_keeps [of r] by (intro shape_set_route) auto

lemma shape_probe: "shape (probe_target net timeout j l t) = shape t"
proof -
  have "map addr ((targets r)[l := check_target net timeout (targets r ! l)]) = map addr (targets r)" for r
    by (cases "l < length (targets r)") (simp_all add: map_update check_target_def list_update_same_conv list_update_beyond)
  then show ?thesis unfolding probe_target_def Let_def by (intro shape_set_route) simp_all
qed

lemma shape_prefixes: "shape t = shape u \<Longrightarrow> map route_prefix (pt_routes t) = map route_prefix (pt_routes u)"
proof -
  have "map route_prefix (pt_routes t) = map fst (shape t)" for t by (simp add: shape_def comp_def)
  then show "shape t = shape u \<Longrightarrow> map route_prefix (pt_routes t) = map route_prefix (pt_routes u)" by metis
qed

lemma shape_match:
  assumes "shape t = shape u"
  shows "proxy_match_route t p = None \<longleftrightarrow> proxy_match_route u p = None"
proof -
  have "set (map route_prefix (pt_routes t)) = set (map route_prefix (pt_routes u))"
    using shape_prefixes [OF assms] by simp
  then show ?thesis by (auto simp: proxy.lookup_None_iff) (metis image_iff)+
qed

lemma shape_has_routes: "shape t = shape u \<Longrightarrow> has_routes t = has_routes u"
  by (metis has_routes_def map_is_Nil_conv shape_def)

subsection \<open>Invariants\<close>

definition tables_ok :: "'m server \<Rightarrow> bool" where
  "tables_ok s = (sv_proxy s < length (sv_tables s) \<and>
     (\<forall>c \<in> set (sv_checkers s). ck_table c < length (sv_tables s)) \<and>
     (\<forall>k < length (sv_tables s). has_routes (sv_tables s ! k) \<longrightarrow> k \<in> ck_table ` set (sv_checkers s)))"

definition requests_ok :: "'m server \<Rightarrow> bool" where
  "requests_ok s = (\<forall>i p k. sv_requests s i = Dispatched p (ByProxy k) \<longrightarrow>
     k < length (sv_tables s) \<and> proxy_match_route (sv_tables s ! k) p \<noteq> None)"

definition wasm_loaded :: "('m, 'g) srv_env \<Rightarrow> config \<Rightarrow> 'm wasm_table \<Rightarrow> bool" where
  "wasm_loaded E cfg wt = (\<exists>read_file. wt = fst (wasm_from_config (su_wasm E) read_file cfg))"

fun watcher_ok :: "('m, 'g) srv_env \<Rightarrow> config \<Rightarrow> proxy_table list \<Rightarrow> nat \<Rightarrow> 'm wasm_table \<Rightarrow> 'm watcher \<Rightarrow> bool" where
  "watcher_ok E cfg ts k wt Sleeping = (shape (ts ! k) = shape (proxy_from_config cfg) \<and> wasm_loaded E cfg wt)"
| "watcher_ok E cfg ts k wt (StoreProxy k' wt' msg) =
     (k' < length ts \<and> shape (ts ! k') = shape (proxy_from_config cfg) \<and> wasm_loaded E cfg wt')"
| "watcher_ok E cfg ts k wt (StoreWasm wt' msg) =
     (shape (ts ! k) = shape (proxy_from_config cfg) \<and> wasm_loaded E cfg wt')"

definition server_ok :: "('m, 'g) srv_env \<Rightarrow> 'm server \<Rightarrow> bool" where
  "server_ok E s = (tables_ok s \<and> requests_ok s \<and>
     watcher_ok E (sv_loaded s) (sv_tables s) (sv_proxy s) (sv_wasm s) (sv_watcher s))"

lemmas server_ok_defs = server_ok_def tables_ok_def requests_ok_def

lemma table_update:
  assumes "shape t = shape (ts ! k)"
  shows "shape (ts[k := t] ! j) = shape (ts ! j)"
  using assms by (cases "j = k \<and> k < length ts") (auto simp: nth_list_update list_update_beyond)

lemma server_ok_update:
  assumes "server_ok E s" and "shape t = shape (sv_tables s ! k)"
  shows "server_ok E (s\<lparr>sv_tables := (sv_tables s)[k := t]\<rparr>)"
proof -
  note same = table_update [where ts = "sv_tables s", OF assms(2)]
  have "has_routes ((sv_tables s)[k := t] ! j) = has_routes (sv_tables s ! j)"
    "(proxy_match_route ((sv_tables s)[k := t] ! j) p = None) = (proxy_match_route (sv_tables s ! j) p = None)" for j p
    using shape_has_routes [OF same] shape_match [OF same] by blast+
  moreover have "watcher_ok E cfg ((sv_tables s)[k := t]) pr wt w = watcher_ok E cfg (sv_tables s) pr wt w" for cfg pr wt w
    by (cases w) (simp_all add: same)
  ultimately show ?thesis using assms(1) by (auto simp: server_ok_defs)
qed

lemma server_ok_request:
  assumes "server_ok E (s\<lparr>sv_tables := ts\<rparr>)"
  shows "server_ok E (s\<lparr>sv_tables := ts, sv_requests := (sv_requests s)(i := Dispatched p (Forwarding k))\<rparr>)"
  using assms(1) by (auto simp: server_ok_defs)

lemma initial_ok [keeps]: "server_ok E (initial_server (su_wasm E) read_file cfg modified)"
  by (auto simp: server_ok_defs initial_server_def spawn_health_checker_def wasm_loaded_def Let_def)

lemma wakes_ok [keeps]:
  assumes "server_ok E s" and "sv_watcher s = Sleeping"
  shows "server_ok E (watcher_wakes E modified file read_file s)"
proof (cases "modified = None \<or> sv_modified s = modified")
  case True
  then show ?thesis using assms(1) by (auto simp: watcher_wakes_def split: option.split)
next
  case False
  then obtain m where "modified = Some m" "sv_modified s \<noteq> Some m" by auto
  then show ?thesis using assms
    by (auto simp: watcher_wakes_def server_ok_defs spawn_health_checker_def wasm_loaded_def Let_def nth_append less_Suc_eq)
qed

lemma server_step_ok [keeps]:
  assumes "server_ok E s" and "srv_step E s t"
  shows "server_ok E t"
  using assms(2)
proof cases
  case (wakes m f rf)
  then show ?thesis using wakes_ok assms(1) by blast
next
  case (picks i p k)
  then show ?thesis using assms(1) server_ok_update [OF assms(1)]
    by (auto simp: pick_on_def shape_pick split: option.split intro!: server_ok_request)
next
  case (probes c j l net)
  then show ?thesis using server_ok_update [OF assms(1)] by (simp add: probe_def shape_probe)
qed (use assms(1) in \<open>auto simp: server_ok_defs store_proxy_def store_wasm_def load_proxy_def load_wasm_def
       split: option.splits if_splits\<close>)

interpretation listener: step_system "\<lambda>s. \<exists>rf cfg m. s = initial_server (su_wasm E) rf cfg m" "srv_step E" "server_ok E" for E
  by unfold_locales (auto intro: initial_ok server_step_ok)

definition started_with :: "('m, 'g) srv_env \<Rightarrow> 'm server \<Rightarrow> bool" where
  "started_with E s = (\<exists>read_file cfg modified. s = initial_server (su_wasm E) read_file cfg modified)"

lemma reachable_ok: "started_with E s \<Longrightarrow> (srv_step E)\<^sup>*\<^sup>* s t \<Longrightarrow> server_ok E t"
  unfolding started_with_def by (rule listener.reachable_inv) (blast, assumption)

text \<open>
  C2: Hot reload keeps the server consistent: in every state reachable by any interleaving of
  reloads, requests, picks and probes, the current table exists, every table with routes that
  was ever built is being health-checked, a request that was dispatched to a proxy finds its
  route in the table it loaded, and whenever the watcher is asleep both tables are those of
  the configuration loaded last.
\<close>

theorem reload_consistent:
  assumes "started_with E s" and "(srv_step E)\<^sup>*\<^sup>* s t"
  shows "sv_proxy t < length (sv_tables t) \<and>
    (\<forall>k < length (sv_tables t). has_routes (sv_tables t ! k) \<longrightarrow> k \<in> ck_table ` set (sv_checkers t)) \<and>
    (\<forall>i p k. sv_requests t i = Dispatched p (ByProxy k) \<longrightarrow>
       k < length (sv_tables t) \<and> proxy_match_route (sv_tables t ! k) p \<noteq> None) \<and>
    (sv_watcher t = Sleeping \<longrightarrow>
       shape (sv_tables t ! sv_proxy t) = proxy_routes (sv_loaded t) \<and>
       (\<exists>read_file. sv_wasm t = fst (wasm_from_config (su_wasm E) read_file (sv_loaded t))))"
proof -
  have "shape (proxy_from_config cfg) = proxy_routes cfg" for cfg
    by (auto simp: shape_def proxy_from_config_def comp_def intro!: map_idI)
  then show ?thesis
    using reachable_ok [OF assms] by (auto simp: server_ok_defs wasm_loaded_def)
qed

text \<open>What a step may do to the tables and the checkers: only add.\<close>

definition grows :: "'m server \<Rightarrow> 'm server \<Rightarrow> bool" where
  "grows s t = (length (sv_tables s) \<le> length (sv_tables t) \<and>
     (\<forall>k < length (sv_tables s). shape (sv_tables t ! k) = shape (sv_tables s ! k)) \<and>
     prefix (sv_checkers s) (sv_checkers t))"

lemma grows_refl: "grows s s"
  by (simp add: grows_def)

lemma grows_trans: "grows s t \<Longrightarrow> grows t u \<Longrightarrow> grows s u"
  by (auto simp: grows_def)

lemma grows_update: "shape u = shape (sv_tables s ! k) \<Longrightarrow> grows s (s\<lparr>sv_tables := (sv_tables s)[k := u]\<rparr>)"
  by (simp add: grows_def table_update)

lemma grows_request: "grows s t \<Longrightarrow> grows s (t\<lparr>sv_requests := q\<rparr>)"
  by (simp add: grows_def)

lemma step_grows: "srv_step E s t \<Longrightarrow> grows s t"
proof (erule srv_step.cases, goal_cases)
  case (1 s modified cf rf)
  then show ?case
    by (auto simp: grows_def watcher_wakes_def spawn_health_checker_def Let_def nth_append split: option.split)
next
  case (6 s i p k)
  then show ?case by (auto simp: pick_on_def grows_refl shape_pick intro!: grows_request grows_update split: option.split)
next
  case (8 c s j l net)
  then show ?case by (auto simp: probe_def shape_probe intro!: grows_update)
qed (auto simp: grows_def store_proxy_def store_wasm_def load_proxy_def load_wasm_def)

lemma steps_grow: "(srv_step E)\<^sup>*\<^sup>* s t \<Longrightarrow> grows s t"
  by (induction rule: rtranclp_induct) (blast intro: grows_refl grows_trans step_grows)+

text \<open>
  C21: A reload never changes a table that a request holds: along any run the routes of a table
  that exists (their prefixes, addresses and order) stay as they are, only health flags and
  counters move, so a proxied request in flight is finished on the routes it started with;
  and the health checkers of earlier tables are never stopped.
\<close>

theorem snapshots_stable:
  assumes "(srv_step E)\<^sup>*\<^sup>* s t" and "k < length (sv_tables s)"
  shows "k < length (sv_tables t) \<and> shape (sv_tables t ! k) = shape (sv_tables s ! k) \<and>
    (proxy_match_route (sv_tables t ! k) p = None \<longleftrightarrow> proxy_match_route (sv_tables s ! k) p = None) \<and>
    prefix (sv_checkers s) (sv_checkers t)"
proof -
  have "shape (sv_tables t ! k) = shape (sv_tables s ! k)" using steps_grow [OF assms(1)] assms(2) by (simp add: grows_def)
  moreover from shape_match [OF this] have "proxy_match_route (sv_tables t ! k) p = None \<longleftrightarrow> proxy_match_route (sv_tables s ! k) p = None" .
  ultimately show ?thesis using steps_grow [OF assms(1)] assms(2) by (simp add: grows_def)
qed

text \<open>
  Health checkers accumulate: every reload of a file with proxy routes starts another
  checker, and none is ever stopped, so that all the tables replaced since startup go on being
  probed for ever.
\<close>

theorem health_checkers_accumulate:
  assumes "sv_watcher s = Sleeping" and "sv_modified s \<noteq> Some m"
    and "proxy_routes (fst (load (su_std E) (su_path E) cf)) \<noteq> []"
    and "(srv_step E)\<^sup>*\<^sup>* (watcher_wakes E (Some m) cf rf s) t"
  shows "srv_step E s (watcher_wakes E (Some m) cf rf s) \<and>
    Suc (length (sv_checkers s)) \<le> length (sv_checkers t) \<and> prefix (sv_checkers s) (sv_checkers t)"
proof -
  let ?u = "watcher_wakes E (Some m) cf rf s"
  have "sv_checkers ?u = sv_checkers s @ [\<lparr>ck_table = length (sv_tables s), ck_interval = su_interval E, ck_timeout = su_timeout E\<rparr>]"
    using assms(2,3) by (simp add: watcher_wakes_def spawn_health_checker_def has_routes_def proxy_from_config_def Let_def)
  moreover have "prefix (sv_checkers ?u) (sv_checkers t)" using steps_grow [OF assms(4)] by (simp add: grows_def)
  ultimately show ?thesis using assms(1) by (auto simp: prefix_def intro: srv_step.wakes)
qed

subsection \<open>Concrete reloads\<close>

definition old_conf :: string where
  "old_conf = ''proxy_route /a = http://x:1'' @ [LF]"

definition new_conf :: string where
  "new_conf = ''wasm_route /a = hello.wasm'' @ [LF]"

definition sample_env :: "(unit, hello_store) srv_env" where
  "sample_env = \<lparr>su_wasm = hello_engine, su_std = std_id, su_path = ''f'', su_interval = 5, su_timeout = 2\<rparr>"

definition any_file :: "string \<Rightarrow> bytes io_result" where
  "any_file = (\<lambda>_. Inr [])"

definition old_cfg :: config where
  "old_cfg = fst (load std_id ''f'' (Contents old_conf))"

definition new_cfg :: config where
  "new_cfg = fst (load std_id ''f'' (Contents new_conf))"

lemma sample_cfgs:
  "proxy_routes old_cfg = [(''/a'', [''http://x:1''])]" "wasm_routes old_cfg = []"
  "proxy_routes new_cfg = []" "wasm_routes new_cfg = [(''/a'', ''hello.wasm'')]"
  by code_simp+

definition server0 :: "unit server" where
  "server0 = initial_server hello_engine any_file old_cfg (Some 0)"

lemma server0_started: "started_with sample_env server0"
  by (auto simp: started_with_def server0_def sample_env_def)

lemma sample_wasm: "wasm_from_config hello_engine any_file old_cfg = (\<lparr>wt_routes = []\<rparr>, [])"
  "wasm_from_config hello_engine any_file new_cfg = (\<lparr>wt_routes = [\<lparr>wr_prefix = ''/a'', wr_module = ()\<rparr>]\<rparr>, [])"
  by (simp_all add: wasm_from_config_def sample_cfgs load_module_def any_file_def hello_engine_def)

definition server1 :: "unit server" where
  "server1 = watcher_wakes sample_env (Some 7) (Contents new_conf) any_file server0"

lemma sample_tables:
  "proxy_match_route (proxy_from_config old_cfg) ''/a/x'' \<noteq> None" "proxy_match_route (proxy_from_config new_cfg) ''/a/x'' = None"
  by (simp_all add: proxy_match_route_def proxy_from_config_def sample_cfgs)

lemma server1_eq: "server1 = server0\<lparr>sv_modified := Some 7, sv_loaded := new_cfg,
    sv_tables := [proxy_from_config old_cfg, proxy_from_config new_cfg],
    sv_watcher := StoreProxy (Suc 0) \<lparr>wt_routes = [\<lparr>wr_prefix = ''/a'', wr_module = ()\<rparr>]\<rparr> (reload_message ''f'' new_cfg)\<rparr>"
proof -
  have "\<not> has_routes (proxy_from_config new_cfg)" by (simp add: has_routes_def proxy_from_config_def sample_cfgs)
  then show ?thesis
    by (simp add: server1_def watcher_wakes_def server0_def initial_server_def sample_env_def new_cfg_def [symmetric] sample_wasm
        spawn_health_checker_def Let_def)
qed

text \<open>
  C22: A reload can be seen half done: the two tables are stored one after the other, and a
  request loads them one after the other. In this run, on a pair of configurations of which the
  second moves the path /a from a proxy route to a WASM route, a request that comes in between
  finds it in neither table and is served from the document root, although both the old and
  the new configuration give the path to a handler.
\<close>

theorem torn_reload:
  "\<exists>t. (srv_step sample_env)\<^sup>*\<^sup>* server0 t \<and> sv_requests t 0 = Dispatched ''/a/x'' ByStatic \<and>
     (\<exists>r. proxy_match_route (proxy_from_config old_cfg) ''/a/x'' = Some r) \<and>
     (\<exists>r. wasm_match_route (fst (wasm_from_config hello_engine any_file new_cfg)) ''/a/x'' = Some r)"
proof -
  let ?wt = "\<lparr>wt_routes = [\<lparr>wr_prefix = ''/a'', wr_module = ()\<rparr>]\<rparr>" and ?msg = "reload_message ''f'' new_cfg"
  let ?s2 = "store_proxy (Suc 0) ?wt ?msg server1"
  let ?s3 = "load_proxy 0 ''/a/x'' ?s2" let ?s4 = "load_wasm 0 ''/a/x'' ?s3"
  have start: "sv_watcher server0 = Sleeping" "sv_requests server0 = (\<lambda>_. Absent)" "sv_wasm server0 = \<lparr>wt_routes = []\<rparr>"
    by (simp_all add: server0_def initial_server_def spawn_health_checker_def sample_wasm Let_def)
  have r3: "sv_requests ?s3 0 = Unmatched ''/a/x''" "sv_wasm ?s3 = \<lparr>wt_routes = []\<rparr>"
    by (simp_all add: load_proxy_def store_proxy_def server1_eq sample_tables start)
  have "srv_step sample_env server0 server1" unfolding server1_def using start by (intro srv_step.wakes)
  moreover have "srv_step sample_env server1 ?s2" by (intro srv_step.stores_proxy) (simp add: server1_eq)
  moreover have "srv_step sample_env ?s2 ?s3"
    by (intro srv_step.loads_proxy) (simp add: store_proxy_def server1_eq start)
  moreover have "srv_step sample_env ?s3 ?s4" using r3 by (intro srv_step.loads_wasm)
  ultimately have "(srv_step sample_env)\<^sup>*\<^sup>* server0 ?s4"
    by (meson rtranclp.rtrancl_into_rtrancl rtranclp.rtrancl_refl)
  moreover have "sv_requests ?s4 0 = Dispatched ''/a/x'' ByStatic"
    by (simp add: load_wasm_def r3 wasm_match_route_def)
  moreover have "\<exists>r. wasm_match_route (fst (wasm_from_config hello_engine any_file new_cfg)) ''/a/x'' = Some r"
    by (simp add: sample_wasm wasm_match_route_def)
  ultimately show ?thesis using sample_tables(1) by blast
qed

theorem reload_consistent_witness:
  "shape (sv_tables server0 ! sv_proxy server0) = [(''/a'', [''http://x:1''])]"
  using reload_consistent [OF server0_started rtranclp.rtrancl_refl]
  by (simp add: server0_def initial_server_def spawn_health_checker_def sample_cfgs Let_def)

theorem snapshots_stable_witness:
  "shape (sv_tables server1 ! 0) = shape (sv_tables server0 ! 0)"
proof -
  have "srv_step sample_env server0 server1" unfolding server1_def
    by (intro srv_step.wakes) (simp add: server0_def initial_server_def spawn_health_checker_def Let_def)
  then have run: "(srv_step sample_env)\<^sup>*\<^sup>* server0 server1" by blast
  have "0 < length (sv_tables server0)"
    by (simp add: server0_def initial_server_def spawn_health_checker_def Let_def)
  from snapshots_stable [OF run this] show ?thesis by blast
qed

theorem health_checkers_accumulate_witness:
  "2 \<le> length (sv_checkers (watcher_wakes sample_env (Some 7) (Contents old_conf) any_file server0))"
proof -
  have "proxy_routes (fst (load (su_std sample_env) (su_path sample_env) (Contents old_conf))) \<noteq> []"
    using sample_cfgs(1) by (simp add: old_cfg_def sample_env_def)
  moreover have "sv_watcher server0 = Sleeping" "sv_modified server0 \<noteq> Some 7" "length (sv_checkers server0) = 1"
    by (simp_all add: server0_def initial_server_def spawn_health_checker_def has_routes_def proxy_from_config_def
        sample_cfgs Let_def)
  ultimately show ?thesis
    using health_checkers_accumulate [of server0 7 sample_env "Contents old_conf" any_file
        "watcher_wakes sample_env (Some 7) (Contents old_conf) any_file server0"] by simp
qed

text \<open>
  A reload that cannot read the file wipes the routes: if the file is missing, unreadable
  or not UTF-8 when the watcher loads it, the tables that are stored are empty, and every
  path falls through to the document root.
\<close>

theorem unreadable_reload_wipes_routes:
  assumes "sv_watcher s = Sleeping" and "sv_modified s \<noteq> Some m"
    and "cf = Missing \<or> (\<exists>e. read_to_string cf = Inl e)"
  shows "\<exists>t. (srv_step E)\<^sup>*\<^sup>* s t \<and> sv_watcher t = Sleeping \<and>
    proxy_match_route (sv_tables t ! sv_proxy t) p = None \<and> wasm_match_route (sv_wasm t) p = None"
proof -
  let ?u = "watcher_wakes E (Some m) cf rf s"
  have cfg: "fst (load (su_std E) (su_path E) cf) = default_config"
    using assms(3) by (auto simp: load_def)
  have none: "proxy_routes default_config = []" "wasm_routes default_config = []"
    by (simp_all add: default_config_def)
  obtain msg where u: "sv_watcher ?u = StoreProxy (length (sv_tables s)) \<lparr>wt_routes = []\<rparr> msg"
      "sv_tables ?u = sv_tables s @ [\<lparr>pt_routes = []\<rparr>]"
    using assms(2) by (simp add: watcher_wakes_def cfg none proxy_from_config_def wasm_from_config_def has_routes_def Let_def)
  let ?v = "store_proxy (length (sv_tables s)) \<lparr>wt_routes = []\<rparr> msg ?u"
  let ?t = "store_wasm \<lparr>wt_routes = []\<rparr> msg ?v"
  have "srv_step E s ?u" by (intro srv_step.wakes assms(1))
  moreover have "srv_step E ?u ?v" by (intro srv_step.stores_proxy u)
  moreover have "srv_step E ?v ?t" by (intro srv_step.stores_wasm) (simp add: store_proxy_def)
  ultimately have "(srv_step E)\<^sup>*\<^sup>* s ?t" by (meson rtranclp.rtrancl_into_rtrancl rtranclp.rtrancl_refl)
  then show ?thesis
    using u(2) by (intro exI [of _ ?t]) (simp add: store_wasm_def store_proxy_def proxy_match_route_def wasm_match_route_def)
qed

theorem unreadable_reload_wipes_routes_witness:
  "\<exists>t. (srv_step sample_env)\<^sup>*\<^sup>* server0 t \<and> proxy_match_route (sv_tables t ! sv_proxy t) ''/a/x'' = None"
  using unreadable_reload_wipes_routes [of server0 7 Missing sample_env "''/a/x''"]
  by (auto simp: server0_def initial_server_def spawn_health_checker_def Let_def)

end
