(* ===== verification/Program.thy ===== *)
theory Program
  imports Listener
begin

section \<open>The program (src/main.rs)\<close>

text \<open>
  \<open>main\<close>: the command line, the configuration, the runtime and \<open>listener::run\<close>. The
  outside world is a record of the results of the calls: the configuration file at each path,
  the files the WASM table reads, building the runtime, binding.
\<close>

definition version :: string where
  "version = ''0.1.0''"

fun position :: "('a \<Rightarrow> bool) \<Rightarrow> 'a list \<Rightarrow> nat option" where
  "position P [] = None"
| "position P (x # xs) = (if P x then Some 0 else map_option Suc (position P xs))"

definition default_config_path :: string where
  "default_config_path = ''./configs/nwarp.conf''"

definition config_path_of :: "string list \<Rightarrow> string" where
  "config_path_of args =
     (case position (\<lambda>a. a = ''--config'' \<or> a = ''-c'') args of
        None \<Rightarrow> default_config_path
      | Some i \<Rightarrow> if i + 1 < length args then args ! (i + 1) else default_config_path)"

record ('m, 'g) os =
  os_std :: std_params
  os_wasm :: "('m, 'g) wasmi"
  os_config :: "string \<Rightarrow> config_file"
  os_files :: "string \<Rightarrow> bytes io_result"
  os_runtime :: "usize \<Rightarrow> io_error option"
  os_bind :: "string \<Rightarrow> unit io_result"
  os_modified :: "string \<Rightarrow> nat option"
  os_logs :: log_world

datatype 'm process_end = Exit nat | Serving "'m started"

record 'm process =
  ps_stdout :: "string list"
  ps_stderr :: "string list"
  ps_outcome :: "'m process_end"
  ps_logs :: log_world

definition fatal :: "string \<Rightarrow> string" where
  "fatal msg = ''[nwarp] fatal: '' @ msg"

definition main :: "('m, 'g) os \<Rightarrow> string list \<Rightarrow> 'm process" where
  "main W args =
     (if list_ex (\<lambda>a. a = ''--version'' \<or> a = ''-v'') args then
        \<lparr>ps_stdout = [''nwarp '' @ version], ps_stderr = [], ps_outcome = Exit 0, ps_logs = os_logs W\<rparr>
      else
        (let config_path = config_path_of args;
             out = [''NWarp v'' @ version @ '' starting...'', ''Loading config from: '' @ config_path];
             (cfg, warnings) = load (os_std W) config_path (os_config W config_path);
             threads = max (worker_threads cfg) 1
         in case os_runtime W threads of
              Some e \<Rightarrow>
                \<lparr>ps_stdout = out, ps_stderr = warnings @ [fatal (''failed to start async runtime: '' @ err_msg e)],
                 ps_outcome = Exit 1, ps_logs = os_logs W\<rparr>
            | None \<Rightarrow>
                (case run (os_wasm W) (os_files W) (os_bind W) cfg config_path (os_modified W config_path) (os_logs W) of
                   (Inl e, wasm_warnings, logs) \<Rightarrow>
                     \<lparr>ps_stdout = out, ps_stderr = warnings @ wasm_warnings @ [fatal (err_msg e)],
                      ps_outcome = Exit 1, ps_logs = logs\<rparr>
                 | (Inr st, wasm_warnings, logs) \<Rightarrow>
                     \<lparr>ps_stdout = out @ on_stdout st, ps_stderr = warnings @ wasm_warnings,
                      ps_outcome = Serving st, ps_logs = logs\<rparr>)))"

subsection \<open>The command line\<close>

lemma position_append: "position P xs = None \<Longrightarrow> position P (xs @ ys) = map_option ((+) (length xs)) (position P ys)"
  by (cases "position P ys") (induction xs; simp split: if_splits)+

lemma position_None [simp]: "position P xs = None \<longleftrightarrow> (\<forall>x \<in> set xs. \<not> P x)"
  by (induction xs) auto

text \<open>
  The configuration file is the argument after the first \<open>--config\<close> or \<open>-c\<close>, and the
  built-in path if there is no such flag or it is the last argument.
\<close>

theorem config_path_spec:
  assumes "\<forall>a \<in> set pre. a \<noteq> ''--config'' \<and> a \<noteq> ''-c''" and "flag = ''--config'' \<or> flag = ''-c''"
  shows "config_path_of (pre @ [flag, path] @ rest) = path \<and>
    config_path_of (pre @ [flag]) = ''./configs/nwarp.conf'' \<and> config_path_of pre = ''./configs/nwarp.conf''"
proof -
  let ?P = "\<lambda>a. a = ''--config'' \<or> a = ''-c''"
  have none: "position ?P pre = None" using assms(1) by simp
  have "position ?P (pre @ [flag, path] @ rest) = Some (length pre)" "position ?P (pre @ [flag]) = Some (length pre)"
    using assms(2) by (simp_all only: position_append [OF none]) auto
  then show ?thesis using none by (simp add: config_path_of_def default_config_path_def nth_append del: position_None)
qed

theorem config_path_spec_witness:
  "config_path_of [''nwarpd'', ''-c'', ''my.conf'', ''--config'', ''other''] = ''my.conf''"
  using config_path_spec [of "[''nwarpd'']" "''-c''" "''my.conf''" "[''--config'', ''other'']"] by simp

subsection \<open>Outcomes\<close>

text \<open>
  C37: How the process ends: with \<open>--version\<close> or \<open>-v\<close> it prints the version, exits with status 0
  and touches nothing; otherwise the runtime is asked for the configured number of worker
  threads, but at least one; a runtime that cannot be built or an address that cannot be bound
  is one fatal line after the warnings, and exit status 1; in every other case the server runs,
  serving exactly the proxy routes of the configuration, with one health checker on the table
  it serves (none if it has no route) at the configured interval and timeout, and with the TLS
  and QUIC listeners exactly if TLS is enabled.
\<close>

theorem main_outcomes:
  fixes args :: "string list"
  assumes "load (os_std W) (config_path_of args) (os_config W (config_path_of args)) = (cfg, warnings)"
    and "wasm_from_config (os_wasm W) (os_files W) cfg = (wt, wasm_warnings)"
  shows "(''--version'' \<in> set args \<or> ''-v'' \<in> set args \<longrightarrow>
      main W args = \<lparr>ps_stdout = [''nwarp 0.1.0''], ps_stderr = [], ps_outcome = Exit 0, ps_logs = os_logs W\<rparr>) \<and>
    (''--version'' \<notin> set args \<and> ''-v'' \<notin> set args \<longrightarrow>
      (\<exists>threads. 1 \<le> threads \<and> (1 \<le> worker_threads cfg \<longrightarrow> threads = worker_threads cfg) \<and>
        (\<forall>e. os_runtime W threads = Some e \<longrightarrow> ps_outcome (main W args) = Exit 1 \<and>
          ps_stderr (main W args) = warnings @ [fatal (''failed to start async runtime: '' @ err_msg e)]) \<and>
        (\<forall>e. os_runtime W threads = None \<and> os_bind W (host cfg @ '':'' @ show_word (port cfg)) = Inl e \<longrightarrow>
          ps_outcome (main W args) = Exit 1 \<and> ps_stderr (main W args) = warnings @ wasm_warnings @ [fatal (err_msg e)]) \<and>
        (os_runtime W threads = None \<and> os_bind W (host cfg @ '':'' @ show_word (port cfg)) = Inr () \<longrightarrow>
          (\<exists>st. ps_outcome (main W args) = Serving st \<and>
            shape (sv_tables (on_server st) ! sv_proxy (on_server st)) = proxy_routes cfg \<and>
            sv_wasm (on_server st) = wt \<and>
            (TlsListener \<in> set (on_tasks st) \<longleftrightarrow> tls_enabled cfg) \<and>
            (QuicListener \<in> set (on_tasks st) \<longleftrightarrow> tls_enabled cfg) \<and>
            sv_checkers (on_server st) = (if proxy_routes cfg = [] then []
              else [\<lparr>ck_table = sv_proxy (on_server st), ck_interval = health_check_interval_secs cfg,
                     ck_timeout = health_check_timeout_secs cfg\<rparr>])))))"
proof (intro conjI impI, goal_cases)
  case 1
  then show ?case by (auto simp: main_def version_def list_ex_iff)
next
  case 2
  then have "\<not> list_ex (\<lambda>a. a = ''--version'' \<or> a = ''-v'') args" by (auto simp: list_ex_iff)
  then show ?case using assms
    by (intro exI [of _ "max (worker_threads cfg) 1"])
      (auto simp: main_def run_def case_prod_beta Let_def initial_server_def spawn_health_checker_def side_tasks_def
        shape_def proxy_from_config_def has_routes_def comp_def intro!: map_idI split: option.splits sum.splits)
qed

definition sample_os :: "(unit, hello_store) os" where
  "sample_os = \<lparr>os_std = std_id, os_wasm = hello_engine,
     os_config = (\<lambda>p. if p = ''f'' then Contents old_conf else Missing), os_files = any_file,
     os_runtime = (\<lambda>_. None), os_bind = (\<lambda>_. Inr ()), os_modified = (\<lambda>_. Some 0), os_logs = empty_log_world\<rparr>"

lemma sample_path: "config_path_of [''nwarpd'', ''-c'', ''f''] = ''f''"
  by code_simp

theorem main_outcomes_witness:
  "(\<exists>st. ps_outcome (main sample_os [''nwarpd'', ''-c'', ''f'']) = Serving st \<and>
     shape (sv_tables (on_server st) ! sv_proxy (on_server st)) = [(''/a'', [''http://x:1''])]) \<and>
   ps_stdout (main sample_os [''nwarpd'', ''-v'']) = [''nwarp 0.1.0'']"
proof -
  note outcomes = main_outcomes [OF surjective_pairing surjective_pairing]
  have "fst (load (os_std sample_os) (config_path_of [''nwarpd'', ''-c'', ''f''])
      (os_config sample_os (config_path_of [''nwarpd'', ''-c'', ''f'']))) = old_cfg"
    by (simp add: sample_path sample_os_def old_cfg_def)
  then have "\<exists>st. ps_outcome (main sample_os [''nwarpd'', ''-c'', ''f'']) = Serving st \<and>
      shape (sv_tables (on_server st) ! sv_proxy (on_server st)) = [(''/a'', [''http://x:1''])]"
    using outcomes [where W = sample_os and args = "[''nwarpd'', ''-c'', ''f'']"] by (auto simp: sample_os_def sample_cfgs)
  moreover have "ps_stdout (main sample_os [''nwarpd'', ''-v'']) = [''nwarp 0.1.0'']"
    using outcomes [where W = sample_os and args = "[''nwarpd'', ''-v'']"] by simp
  ultimately show ?thesis ..
qed

text \<open>
  The server \<open>main\<close> starts is an initial state of the transition system of \<open>Listener\<close>; the
  watcher is given the intervals of the configuration loaded at startup.
\<close>

definition env_of :: "('m, 'g) os \<Rightarrow> string list \<Rightarrow> ('m, 'g) srv_env" where
  "env_of W args =
     (let path = config_path_of args; cfg = fst (load (os_std W) path (os_config W path)) in
      \<lparr>su_wasm = os_wasm W, su_std = os_std W, su_path = path,
       su_interval = health_check_interval_secs cfg, su_timeout = health_check_timeout_secs cfg\<rparr>)"

lemma main_starts:
  assumes "ps_outcome (main W args) = Serving st"
  shows "started_with (env_of W args) (on_server st)"
proof -
  obtain rf cfg m where "on_server st = initial_server (os_wasm W) rf cfg m"
    using assms by (auto simp: main_def run_def case_prod_beta Let_def split: if_splits option.splits sum.splits)
  then show ?thesis by (auto simp: started_with_def env_of_def Let_def)
qed

end
