(* ===== verification/Proxy_Concurrency.thy ===== *)
theory Proxy_Concurrency
  imports Proxy
begin

section \<open>Concurrent picks on one route (src/proxy/mod.rs)\<close>

text \<open>
  Connection tasks share a route: each call of \<open>pick_upstream\<close> is a loop of atomic
  \<open>fetch_add\<close> on the counter and atomic loads of a health flag, and the health checker
  stores flags in between. A step is one atomic operation of one task, or one store of the
  checker; any interleaving is possible.
\<close>

text \<open>
  Where a task is: not started, at the head of the loop with some iterations left, between
  \<open>fetch_add\<close> and the load with the index it drew, or returned.
\<close>

datatype picker = Before | Head nat | Drawn nat nat | Returned "nat option"

record shared_route =
  sr_counter :: usize
  flags :: "bool list"
  tasks :: "nat \<Rightarrow> picker"

datatype actor = Task nat | Checker

inductive pick_step :: "actor \<Rightarrow> shared_route \<Rightarrow> shared_route \<Rightarrow> bool" where
  enter_empty: "tasks s i = Before \<Longrightarrow> flags s = [] \<Longrightarrow>
     pick_step (Task i) s (s\<lparr>tasks := (tasks s)(i := Returned None)\<rparr>)"
| enter: "tasks s i = Before \<Longrightarrow> flags s \<noteq> [] \<Longrightarrow>
     pick_step (Task i) s (s\<lparr>tasks := (tasks s)(i := Head (length (flags s)))\<rparr>)"
| exhausted: "tasks s i = Head 0 \<Longrightarrow>
     pick_step (Task i) s (s\<lparr>tasks := (tasks s)(i := Returned None)\<rparr>)"
| fetch_add: "tasks s i = Head (Suc k) \<Longrightarrow>
     pick_step (Task i) s (s\<lparr>sr_counter := sr_counter s + 1,
       tasks := (tasks s)(i := Drawn k (unat (sr_counter s) mod length (flags s)))\<rparr>)"
| found: "tasks s i = Drawn k j \<Longrightarrow> flags s ! j \<Longrightarrow>
     pick_step (Task i) s (s\<lparr>tasks := (tasks s)(i := Returned (Some j))\<rparr>)"
| skip: "tasks s i = Drawn k j \<Longrightarrow> \<not> flags s ! j \<Longrightarrow>
     pick_step (Task i) s (s\<lparr>tasks := (tasks s)(i := Head k)\<rparr>)"
| store: "j < length (flags s) \<Longrightarrow> pick_step Checker s (s\<lparr>flags := (flags s)[j := b]\<rparr>)"

inductive_cases pick_step_task: "pick_step (Task i) s t"
inductive_cases pick_step_checker: "pick_step Checker s t"

inductive pick_run :: "shared_route \<Rightarrow> actor list \<Rightarrow> shared_route \<Rightarrow> bool" where
  run_nil: "pick_run s [] s"
| run_snoc: "pick_run s as t \<Longrightarrow> pick_step a t u \<Longrightarrow> pick_run s (as @ [a]) u"

definition fresh_route :: "usize \<Rightarrow> bool list \<Rightarrow> shared_route" where
  "fresh_route c fs = \<lparr>sr_counter = c, flags = fs, tasks = (\<lambda>_. Before)\<rparr>"

subsection \<open>Every index drawn is in range\<close>

fun picker_ok :: "nat \<Rightarrow> picker \<Rightarrow> bool" where
  "picker_ok n Before = True"
| "picker_ok n (Head k) = (0 < n \<and> k \<le> n)"
| "picker_ok n (Drawn k j) = (k < n \<and> j < n)"
| "picker_ok n (Returned None) = True"
| "picker_ok n (Returned (Some j)) = (j < n)"

definition shared_inv :: "nat \<Rightarrow> shared_route \<Rightarrow> bool" where
  "shared_inv n s = (length (flags s) = n \<and> (\<forall>i. picker_ok n (tasks s i)))"

lemma shared_inv_task: "shared_inv n s \<Longrightarrow> picker_ok n (tasks s i)"
  by (simp add: shared_inv_def)

lemma shared_inv_set: "shared_inv n s \<Longrightarrow> picker_ok n p \<Longrightarrow>
    shared_inv n (s\<lparr>tasks := (tasks s)(i := p)\<rparr>) \<and> shared_inv n (s\<lparr>sr_counter := c, tasks := (tasks s)(i := p)\<rparr>)"
  by (simp add: shared_inv_def)

lemma pick_step_inv [keeps]:
  assumes "pick_step a s t" and inv: "shared_inv n s"
  shows "shared_inv n t"
proof -
  have n: "length (flags s) = n" using inv by (simp add: shared_inv_def)
  note task = shared_inv_task [OF inv] and set = shared_inv_set [OF inv]
  from assms(1) show ?thesis
  proof cases
    case (enter i)
    then have "0 < n" using n by (cases "flags s") auto
    then show ?thesis using enter n set [of "Head n" i] by simp
  next
    case (fetch_add i k)
    then show ?thesis
      using n task [of i] set [of "Drawn k (unat (sr_counter s) mod n)" i "sr_counter s + 1"] by simp
  next
    case (found i k j)
    then show ?thesis using task [of i] set [of "Returned (Some j)" i] by simp
  next
    case (skip i k j)
    then show ?thesis using task [of i] set [of "Head k" i] by simp
  next
    case (store j b)
    then show ?thesis using inv by (simp add: shared_inv_def)
  qed (use set [of "Returned None"] in simp_all)
qed

interpretation picking: step_system "\<lambda>s. \<exists>c fs. s = fresh_route c fs \<and> length fs = n"
    "\<lambda>s t. \<exists>a. pick_step a s t" "shared_inv n" for n
proof unfold_locales
  show "\<exists>c fs. s = fresh_route c fs \<and> length fs = n \<Longrightarrow> shared_inv n s" for s
    by (auto simp: fresh_route_def shared_inv_def)
  show "shared_inv n s \<Longrightarrow> \<exists>a. pick_step a s t \<Longrightarrow> shared_inv n t" for s t
    by (blast intro: pick_step_inv)
qed

lemma pick_run_steps: "pick_run s as t \<Longrightarrow> (\<lambda>s t. \<exists>a. pick_step a s t)\<^sup>*\<^sup>* s t"
  by (induction rule: pick_run.induct) (auto intro: rtranclp.rtrancl_into_rtrancl)

text \<open>
  C20: However concurrent picks and health updates interleave, no task ever indexes the target
  list out of range (in the code: no panic in \<open>pick_upstream\<close>), and every returned index is a
  target of the route.
\<close>

theorem concurrent_pick_in_range:
  assumes "pick_run (fresh_route c fs) as s"
  shows "length (flags s) = length fs \<and>
    (\<forall>i k j. tasks s i = Drawn k j \<longrightarrow> j < length (flags s)) \<and>
    (\<forall>i j. tasks s i = Returned (Some j) \<longrightarrow> j < length fs)"
proof -
  have "shared_inv (length fs) s"
    by (rule picking.reachable_inv [OF _ pick_run_steps [OF assms]]) blast
  then have ok: "length (flags s) = length fs" "picker_ok (length fs) (tasks s i)" for i
    by (simp_all add: shared_inv_def)
  show ?thesis
  proof (intro conjI allI impI)
    show "j < length (flags s)" if "tasks s i = Drawn k j" for i k j using ok(1) ok(2) [of i] that by simp
    show "j < length fs" if "tasks s i = Returned (Some j)" for i j using ok(2) [of i] that by simp
  qed (rule ok(1))
qed

lemma pick_run_append: "pick_run t bs u \<Longrightarrow> pick_run s as t \<Longrightarrow> pick_run s (as @ bs) u"
proof (induction rule: pick_run.induct)
  case (run_snoc s' bs t' a u)
  show ?case using pick_run.run_snoc [OF run_snoc.IH [OF run_snoc.prems] run_snoc.hyps(2)] by simp
qed simp

lemma pick_run_one: "pick_step a s t \<Longrightarrow> pick_run s [a] t"
  using run_snoc [OF run_nil] by simp

subsection \<open>Wait-freedom\<close>

text \<open>The own steps a task still has to take, at most.\<close>

fun rank :: "nat \<Rightarrow> picker \<Rightarrow> nat" where
  "rank n Before = 2 * n + 2"
| "rank n (Head k) = 2 * k + 1"
| "rank n (Drawn k j) = 2 * k + 2"
| "rank n (Returned r) = 0"

lemma pick_step_rank:
  assumes "pick_step a s t" and "length (flags s) = n"
  shows "length (flags t) = n \<and>
    rank n (tasks t i) + (if a = Task i then 1 else 0) \<le> rank n (tasks s i)"
  using assms by cases auto

lemma pick_run_rank:
  "pick_run s as t \<Longrightarrow> length (flags s) = n \<Longrightarrow>
     length (flags t) = n \<and> count_list as (Task i) + rank n (tasks t i) \<le> rank n (tasks s i)"
proof (induction rule: pick_run.induct)
  case (run_snoc s as t a u)
  then show ?case using pick_step_rank [of a t u n i] by (auto split: if_splits)
qed simp

lemma task_can_step: "(\<exists>r. tasks s i = Returned r) \<or> (\<exists>t. pick_step (Task i) s t)"
proof (cases "tasks s i")
  case Before
  then show ?thesis by (cases "flags s = []") (blast intro: pick_step.intros)+
next
  case (Head k)
  then show ?thesis by (cases k) (blast intro: pick_step.intros)+
next
  case (Drawn k j)
  then show ?thesis by (cases "flags s ! j") (blast intro: pick_step.intros)+
qed simp

text \<open>
  C8: \<open>pick_upstream\<close> is wait-free: whatever the other tasks and the health checker do in
  between, a task takes at most \<open>2 n + 2\<close> steps of its own on a route with \<open>n\<close> targets, and
  until it has returned it can always take one.
\<close>

theorem concurrent_pick_wait_free:
  assumes "pick_run (fresh_route c fs) as s"
  shows "count_list as (Task i) \<le> 2 * length fs + 2 \<and>
    ((\<exists>r. tasks s i = Returned r) \<or> (\<exists>t. pick_step (Task i) s t))"
proof -
  have "count_list as (Task i) + rank (length fs) (tasks s i) \<le> 2 * length fs + 2"
    using pick_run_rank [OF assms, of "length fs" i] by (simp add: fresh_route_def)
  then show ?thesis using task_can_step [of s i] by simp
qed

subsection \<open>A pick that is not interrupted is the function \<open>pick_upstream\<close>\<close>

text \<open>
  \<open>play_step\<close> is the one step a task can take: between two steps of other actors a task is
  deterministic.
\<close>

definition play_step :: "nat \<Rightarrow> shared_route \<Rightarrow> shared_route" where
  "play_step i s = (case tasks s i of
     Before \<Rightarrow> s\<lparr>tasks := (tasks s)(i := if flags s = [] then Returned None else Head (length (flags s)))\<rparr>
   | Head 0 \<Rightarrow> s\<lparr>tasks := (tasks s)(i := Returned None)\<rparr>
   | Head (Suc k) \<Rightarrow> s\<lparr>sr_counter := sr_counter s + 1,
       tasks := (tasks s)(i := Drawn k (unat (sr_counter s) mod length (flags s)))\<rparr>
   | Drawn k j \<Rightarrow> s\<lparr>tasks := (tasks s)(i := if flags s ! j then Returned (Some j) else Head k)\<rparr>
   | Returned _ \<Rightarrow> s)"

lemma play_step_sound: "(\<nexists>r. tasks s i = Returned r) \<Longrightarrow> pick_step (Task i) s (play_step i s)"
  by (auto simp: play_step_def intro: pick_step.intros split: picker.split nat.split)

lemma play_step_only: "pick_step (Task i) s t \<Longrightarrow> t = play_step i s"
  by (erule pick_step_task) (simp_all add: play_step_def)

lemma play_step_Returned: "tasks s i = Returned v \<Longrightarrow> (play_step i ^^ n) s = s"
  by (induction n) (simp_all add: play_step_def)

lemma solo_run_play: "pick_run s as t \<Longrightarrow> set as \<subseteq> {Task i} \<Longrightarrow> t = (play_step i ^^ length as) s"
  by (induction rule: pick_run.induct) (auto dest!: play_step_only)

text \<open>Two runs of one task alone that have returned have reached the same state.\<close>

lemma solo_run_unique:
  assumes "pick_run s as t" "set as \<subseteq> {Task i}" "tasks t i = Returned v"
    and "pick_run s bs u" "set bs \<subseteq> {Task i}" "tasks u i = Returned w"
  shows "u = t"
proof -
  have t: "t = (play_step i ^^ length as) s" and u: "u = (play_step i ^^ length bs) s"
    using solo_run_play assms by blast+
  show ?thesis
  proof (cases "length as \<le> length bs")
    case True
    then have "u = (play_step i ^^ (length bs - length as)) t"
      unfolding t u by (simp flip: funpow_add [unfolded comp_def, THEN fun_cong])
    then show ?thesis using play_step_Returned [OF assms(3)] by simp
  next
    case False
    then have "t = (play_step i ^^ (length as - length bs)) u"
      unfolding t u by (simp flip: funpow_add [unfolded comp_def, THEN fun_cong])
    then show ?thesis using play_step_Returned [OF assms(6)] by simp
  qed
qed

text \<open>A shared route in which task \<open>i\<close> is about to pick represents a route of the table.\<close>

definition represents :: "shared_route \<Rightarrow> proxy_route \<Rightarrow> bool" where
  "represents s r = (sr_counter s = counter r \<and> flags s = map healthy (targets r))"

definition outcome :: "proxy_route \<Rightarrow> nat option \<Rightarrow> string option" where
  "outcome r v = map_option (\<lambda>j. addr (targets r ! j)) v"

lemma solo_loop:
  assumes "tasks s i = Head k" and "represents s r" and "targets r \<noteq> []"
  shows "\<exists>as t v. pick_run s as t \<and> set as \<subseteq> {Task i} \<and> tasks t i = Returned v \<and>
     represents t (snd (pick_loop k r)) \<and> outcome r v = fst (pick_loop k r)"
  using assms
proof (induction k arbitrary: s r)
  case 0
  let ?t = "s\<lparr>tasks := (tasks s)(i := Returned None)\<rparr>"
  have "pick_run s [Task i] ?t" using 0 by (intro pick_run_one exhausted) simp
  then show ?case using 0
    by (intro exI [of _ "[Task i]"] exI [of _ ?t] exI [of _ None]) (simp add: represents_def outcome_def)
next
  case (Suc k)
  let ?n = "length (targets r)" and ?r = "r\<lparr>counter := counter r + 1\<rparr>"
  let ?j = "unat (counter r) mod ?n"
  let ?s = "s\<lparr>sr_counter := sr_counter s + 1, tasks := (tasks s)(i := Drawn k ?j)\<rparr>"
  have j: "?j < ?n" using Suc.prems(3) by simp
  have n: "length (flags s) = ?n" "sr_counter s = counter r" "flags s ! ?j = healthy (targets r ! ?j)"
    using Suc.prems(2) j by (simp_all add: represents_def)
  have draw: "pick_run s [Task i] ?s"
    using pick_step.fetch_add [OF Suc.prems(1)] n by (intro pick_run_one) simp
  show ?case
  proof (cases "healthy (targets r ! ?j)")
    case True
    let ?t = "?s\<lparr>tasks := (tasks ?s)(i := Returned (Some ?j))\<rparr>"
    have "pick_run ?s [Task i] ?t" by (rule pick_run_one, rule found [of _ _ k]) (use True n in simp_all)
    from pick_run_append [OF this draw] have "pick_run s [Task i, Task i] ?t" by simp
    then show ?thesis using True Suc.prems(2)
      by (intro exI [of _ "[Task i, Task i]"] exI [of _ ?t] exI [of _ "Some ?j"])
         (simp add: Let_def represents_def outcome_def)
  next
    case False
    let ?t = "?s\<lparr>tasks := (tasks ?s)(i := Head k)\<rparr>"
    have "pick_run ?s [Task i] ?t" by (rule pick_run_one, rule skip [of _ _ _ ?j]) (use False n in simp_all)
    from pick_run_append [OF this draw] have lap: "pick_run s [Task i, Task i] ?t" by simp
    have "represents ?t ?r" using Suc.prems(2) by (simp add: represents_def)
    with Suc.IH [of ?t ?r] Suc.prems(3) obtain as u v
      where rest: "pick_run ?t as u" "set as \<subseteq> {Task i}" "tasks u i = Returned v"
        "represents u (snd (pick_loop k ?r))" "outcome ?r v = fst (pick_loop k ?r)" by auto
    have "outcome r v = outcome ?r v" by (simp add: outcome_def)
    then show ?thesis using False rest pick_run_append [OF rest(1) lap]
      by (intro exI [of _ "[Task i, Task i] @ as"] exI [of _ u] exI [of _ v]) (simp add: Let_def)
  qed
qed

lemma solo_pick_exists:
  assumes "tasks s i = Before" and "represents s r"
  shows "\<exists>as t v. pick_run s as t \<and> set as \<subseteq> {Task i} \<and> tasks t i = Returned v \<and>
     represents t (snd (pick_upstream r)) \<and> outcome r v = fst (pick_upstream r)"
proof (cases "targets r = []")
  case True
  let ?t = "s\<lparr>tasks := (tasks s)(i := Returned None)\<rparr>"
  have "pick_run s [Task i] ?t"
    by (rule pick_run_one, rule enter_empty) (use True assms in \<open>simp_all add: represents_def\<close>)
  then show ?thesis using True assms(2)
    by (intro exI [of _ "[Task i]"] exI [of _ ?t] exI [of _ None])
       (simp add: represents_def outcome_def pick_upstream_def)
next
  case False
  let ?n = "length (targets r)"
  let ?t = "s\<lparr>tasks := (tasks s)(i := Head ?n)\<rparr>"
  have n: "length (flags s) = ?n" "flags s \<noteq> []" using False assms(2) by (simp_all add: represents_def)
  have first: "pick_run s [Task i] ?t" using pick_step.enter [OF assms(1) n(2)] n(1) by (intro pick_run_one) simp
  have "represents ?t r" using assms(2) by (simp add: represents_def)
  with solo_loop [of ?t i ?n r] False obtain as u v
    where rest: "pick_run ?t as u" "set as \<subseteq> {Task i}" "tasks u i = Returned v"
      "represents u (snd (pick_loop ?n r))" "outcome r v = fst (pick_loop ?n r)" by auto
  show ?thesis using rest False pick_run_append [OF rest(1) first]
    by (intro exI [of _ "[Task i] @ as"] exI [of _ u] exI [of _ v]) (simp add: pick_upstream_def Let_def)
qed

text \<open>
  C13: The step relation refines the function: whenever a task has run \<open>pick_upstream\<close> from its
  start to its return with no step of another task or of the checker in between, it has
  returned the upstream the function returns and left the counter the function leaves, with
  every flag as it was; and such a run exists from every state in which the task is at its start.
\<close>

theorem solo_pick_refines:
  assumes "tasks s i = Before" and "represents s r"
  shows "(\<forall>as t v. pick_run s as t \<and> set as \<subseteq> {Task i} \<and> tasks t i = Returned v \<longrightarrow>
       represents t (snd (pick_upstream r)) \<and> outcome r v = fst (pick_upstream r)) \<and>
     (\<exists>as t v. pick_run s as t \<and> set as \<subseteq> {Task i} \<and> tasks t i = Returned v)"
proof -
  obtain as t v where solo: "pick_run s as t" "set as \<subseteq> {Task i}" "tasks t i = Returned v"
      "represents t (snd (pick_upstream r))" "outcome r v = fst (pick_upstream r)"
    using solo_pick_exists [OF assms] by blast
  have "represents u (snd (pick_upstream r)) \<and> outcome r w = fst (pick_upstream r)"
    if "pick_run s bs u" "set bs \<subseteq> {Task i}" "tasks u i = Returned w" for bs u w
    using solo_run_unique [OF solo(1-3) that] solo that(3) by simp
  then show ?thesis using solo(1-3) by blast
qed

theorem solo_pick_refines_witness:
  "\<exists>as t v. pick_run (fresh_route 7 [False, True]) as t \<and> tasks t 0 = Returned v \<and>
     outcome sample_route v = fst (pick_upstream sample_route)"
  using solo_pick_refines [of "fresh_route 7 [False, True]" 0 sample_route]
  by (fastforce simp: fresh_route_def represents_def sample_route_def)

subsection \<open>Two laps that interleave\<close>

text \<open>A schedule of steps of tasks (the checker does nothing in it) is played by a function.\<close>

fun play :: "nat list \<Rightarrow> shared_route \<Rightarrow> shared_route" where
  "play [] s = s"
| "play (i # is) s = (case tasks s i of Returned _ \<Rightarrow> play is s | _ \<Rightarrow> play is (play_step i s))"

lemma play_sound: "\<exists>as. pick_run s as (play is s) \<and> set as \<subseteq> range Task"
proof (induction "is" arbitrary: s)
  case Nil
  show ?case by (intro exI [of _ "[]"]) (simp add: run_nil)
next
  case (Cons i is')
  show ?case
  proof (cases "\<exists>r. tasks s i = Returned r")
    case True
    then show ?thesis using Cons [of s] by auto
  next
    case False
    obtain as where as: "pick_run (play_step i s) as (play is' (play_step i s))" "set as \<subseteq> range Task"
      using Cons by blast
    have "pick_run s ([Task i] @ as) (play is' (play_step i s))"
      by (rule pick_run_append [OF as(1)], rule pick_run_one, rule play_step_sound) (use False in blast)
    moreover have "play (i # is') s = play is' (play_step i s)"
      using False by (auto split: picker.split)
    ultimately show ?thesis using as(2) by (intro exI [of _ "[Task i] @ as"]) auto
  qed
qed

text \<open>
  C25: The counter is shared by the laps of all tasks: with two targets of which the second
  is healthy throughout, one task's lap can draw the first target twice while another task
  draws the second in between, and then it answers that no upstream is available (the caller
  sends 503). No flag changes in this run.
\<close>

theorem pick_race:
  "\<exists>as s. pick_run (fresh_route 0 [False, True]) as s \<and> Checker \<notin> set as \<and> flags s = [False, True] \<and>
     tasks s 0 = Returned None \<and> tasks s 1 = Returned (Some 1)"
proof -
  let ?s = "play [0, 0, 0, 1, 1, 1, 0, 0, 0] (fresh_route 0 [False, True])"
  obtain as where "pick_run (fresh_route 0 [False, True]) as ?s" "set as \<subseteq> range Task"
    using play_sound by blast
  moreover have "tasks ?s 0 = Returned None" "tasks ?s 1 = Returned (Some 1)" "flags ?s = [False, True]"
    by code_simp+
  ultimately show ?thesis by blast
qed

theorem concurrent_pick_in_range_witness:
  "\<exists>as s. pick_run (fresh_route 0 [False, True]) as s \<and> tasks s 0 = Drawn 1 0 \<and> length (flags s) = 2"
proof -
  let ?s = "play [0, 0] (fresh_route 0 [False, True])"
  obtain as where run: "pick_run (fresh_route 0 [False, True]) as ?s" using play_sound by blast
  have "tasks ?s 0 = Drawn 1 0" by code_simp
  moreover have "length (flags ?s) = 2" using concurrent_pick_in_range [OF run] by simp
  ultimately show ?thesis using run by blast
qed

theorem concurrent_pick_wait_free_witness:
  "\<exists>as s. pick_run (fresh_route 0 [False, True]) as s \<and> tasks s 1 = Returned (Some 1) \<and>
     count_list as (Task 1) \<le> 6"
proof -
  let ?s = "play [0, 0, 1, 1, 1, 1] (fresh_route 0 [False, True])"
  obtain as where run: "pick_run (fresh_route 0 [False, True]) as ?s" using play_sound by blast
  have "tasks ?s 1 = Returned (Some 1)" by code_simp
  moreover have "count_list as (Task 1) \<le> 6" using concurrent_pick_wait_free [OF run, of 1] by simp
  ultimately show ?thesis using run by blast
qed

end
