(* ===== verification/Pool.thy ===== *)
theory Pool
  imports Prelude
begin

section \<open>The thread pool (src/server/pool.rs)\<close>

text \<open>
  A fixed number of workers that take jobs from one channel, whose receiving end is behind a
  mutex; dropping the pool closes the channel and joins the workers. (The module is not
  declared in src/server/mod.rs: the server runs on Tokio tasks instead.) A step is one
  blocking call of one thread, and any thread may take the next one. The jobs are assumed to
  return; \<open>started\<close>, \<open>finished\<close> and \<open>submitted\<close> record what was called.
\<close>

datatype 'j worker = Waits | Holds | Runs 'j | Exited

record 'j pool =
  workers :: "'j worker list"
  sender_open :: bool
  channel :: "'j list"
  submitted :: "'j list"
  started :: "'j list"
  finished :: "'j list"

definition pool_new :: "nat \<Rightarrow> 'j pool" where
  "pool_new sz = \<lparr>workers = replicate (max sz 1) Waits, sender_open = True, channel = [],
     submitted = [], started = [], finished = []\<rparr>"

definition execute :: "'j \<Rightarrow> 'j pool \<Rightarrow> 'j pool" where
  "execute j s = (if sender_open s then s\<lparr>channel := channel s @ [j], submitted := submitted s @ [j]\<rparr> else s)"

text \<open>\<open>Drop\<close>: the sender is taken and dropped; joining returns when every worker has left its loop.\<close>

definition drop_sender :: "'j pool \<Rightarrow> 'j pool" where
  "drop_sender s = s\<lparr>sender_open := False\<rparr>"

definition joined :: "'j pool \<Rightarrow> bool" where
  "joined s = (\<not> sender_open s \<and> list_all (\<lambda>w. w = Exited) (workers s))"

text \<open>The worker's loop: lock, receive (the lock goes with the block), run the job or leave.\<close>

inductive work :: "nat \<Rightarrow> 'j pool \<Rightarrow> 'j pool \<Rightarrow> bool" where
  locks: "i < length (workers s) \<Longrightarrow> workers s ! i = Waits \<Longrightarrow> Holds \<notin> set (workers s) \<Longrightarrow>
    work i s (s\<lparr>workers := (workers s)[i := Holds]\<rparr>)"
| receives: "i < length (workers s) \<Longrightarrow> workers s ! i = Holds \<Longrightarrow> channel s = j # js \<Longrightarrow>
    work i s (s\<lparr>workers := (workers s)[i := Runs j], channel := js, started := started s @ [j]\<rparr>)"
| closes: "i < length (workers s) \<Longrightarrow> workers s ! i = Holds \<Longrightarrow> channel s = [] \<Longrightarrow> \<not> sender_open s \<Longrightarrow>
    work i s (s\<lparr>workers := (workers s)[i := Exited]\<rparr>)"
| returns: "i < length (workers s) \<Longrightarrow> workers s ! i = Runs j \<Longrightarrow>
    work i s (s\<lparr>workers := (workers s)[i := Waits], finished := finished s @ [j]\<rparr>)"

inductive pool_step :: "'j pool \<Rightarrow> 'j pool \<Rightarrow> bool" where
  submits: "pool_step s (execute j s)"
| drops: "pool_step s (drop_sender s)"
| works: "work i s t \<Longrightarrow> pool_step s t"

inductive_cases work_cases: "work i s t"

subsection \<open>Invariant\<close>

text \<open>The jobs that are being run.\<close>

fun job_of :: "'j worker \<Rightarrow> 'j list" where
  "job_of (Runs j) = [j]"
| "job_of w = []"

definition running :: "'j pool \<Rightarrow> 'j list" where
  "running s = concat (map job_of (workers s))"

definition holders :: "'j pool \<Rightarrow> nat" where
  "holders s = count_list (workers s) Holds"

text \<open>
  Jobs start in the order they were submitted, each once; a started job is running or
  finished; one thread at most is inside the lock; workers leave only a closed, empty channel.
\<close>

definition pool_ok :: "nat \<Rightarrow> 'j pool \<Rightarrow> bool" where
  "pool_ok n s = (length (workers s) = n \<and> submitted s = started s @ channel s \<and>
     mset (started s) = mset (running s) + mset (finished s) \<and> holders s \<le> 1 \<and>
     (Exited \<in> set (workers s) \<longrightarrow> \<not> sender_open s \<and> channel s = []))"

lemma mset_job_update:
  "i < length ws \<Longrightarrow> mset (concat (map job_of (ws[i := w]))) + mset (job_of (ws ! i)) =
     mset (concat (map job_of ws)) + mset (job_of w)"
proof (induction ws arbitrary: i)
  case (Cons v ws)
  then show ?case by (cases i) (auto simp: ac_simps)
qed simp

lemma count_update:
  "i < length ws \<Longrightarrow> count_list (ws[i := w]) x + (if ws ! i = x then 1 else 0) =
     count_list ws x + (if w = x then 1 else 0)"
proof (induction ws arbitrary: i)
  case (Cons v ws)
  show ?case
  proof (cases i)
    case (Suc k)
    then show ?thesis using Cons.IH [of k] Cons.prems by (auto split: if_splits)
  qed auto
qed simp

lemma set_update_Exited: "Exited \<in> set (ws[i := w]) \<Longrightarrow> w \<noteq> Exited \<Longrightarrow> Exited \<in> set ws"
  using set_update_subset_insert [of ws i w] by auto

lemma work_ok:
  assumes "work i s t" and "pool_ok n s"
  shows "pool_ok n t"
  using assms(1)
proof cases
  case locks
  then have "holders s = 0" by (simp add: holders_def count_list_0_iff)
  then show ?thesis
    using locks assms(2) mset_job_update [OF locks(2), of Holds] count_update [OF locks(2), of Holds Holds]
    by (auto simp: pool_ok_def running_def holders_def dest: set_update_Exited)
next
  case (receives j js)
  then show ?thesis
    using assms(2) mset_job_update [OF receives(2), of "Runs j"] count_update [OF receives(2), of "Runs j" Holds]
    by (auto simp: pool_ok_def running_def holders_def dest: set_update_Exited)
next
  case closes
  then show ?thesis
    using assms(2) mset_job_update [OF closes(2), of Exited] count_update [OF closes(2), of Exited Holds]
    by (auto simp: pool_ok_def running_def holders_def)
next
  case (returns j)
  then show ?thesis
    using assms(2) mset_job_update [OF returns(2), of Waits] count_update [OF returns(2), of Waits Holds]
    by (auto simp: pool_ok_def running_def holders_def dest: set_update_Exited)
qed

lemma pool_step_ok [keeps]: "pool_ok n s \<Longrightarrow> pool_step s t \<Longrightarrow> pool_ok n t"
proof (erule pool_step.cases, goal_cases)
  case (3 i u v)
  then show ?case using work_ok by blast
qed (auto simp: execute_def drop_sender_def pool_ok_def running_def holders_def)

lemma pool_new_sel [simp]:
  "workers (pool_new sz) = replicate (max sz 1) Waits" "sender_open (pool_new sz)" "channel (pool_new sz) = []"
  "submitted (pool_new sz) = []" "started (pool_new sz) = []" "finished (pool_new sz) = []"
  by (simp_all add: pool_new_def)

lemma pool_new_ok [keeps]: "pool_ok (max sz 1) (pool_new sz :: 'j pool)"
proof -
  have "running (pool_new sz :: 'j pool) = []" by (simp add: running_def)
  moreover have "holders (pool_new sz :: 'j pool) = 0" by (simp add: holders_def count_list_0_iff)
  ultimately show ?thesis by (simp add: pool_ok_def)
qed

interpretation pool: step_system "\<lambda>s. s = pool_new sz" pool_step "pool_ok (max sz 1)" for sz
proof unfold_locales
  show "s = pool_new sz \<Longrightarrow> pool_ok (max sz 1) s" for s :: "'a pool" using pool_new_ok by blast
qed (rule pool_step_ok)

lemma pool_reachable: "pool_step\<^sup>*\<^sup>* (pool_new sz) s \<Longrightarrow> pool_ok (max sz 1) s"
  by (rule pool.reachable_inv [OF refl])

lemma length_running: "length (running s) \<le> length (workers s)"
proof -
  have "length (concat (map job_of ws)) \<le> length ws" for ws :: "'a worker list"
  proof (induction ws)
    case (Cons w ws)
    then show ?case by (cases w) auto
  qed simp
  then show ?thesis by (simp add: running_def)
qed

lemma joined_running: "joined s \<Longrightarrow> running s = []"
  by (auto simp: joined_def running_def list_all_iff)

text \<open>
  C10: The pool runs every job it accepted once, in order, on at most its number of workers:
  in any interleaving of submissions, workers and the drop, jobs start in submission order and
  none is lost or repeated, at most \<open>max size 1\<close> run at a time, at most one worker is inside
  the lock, and when the drop has joined the workers every accepted job has finished.
\<close>

theorem pool_runs_every_job_once:
  assumes "pool_step\<^sup>*\<^sup>* (pool_new sz) s"
  shows "submitted s = started s @ channel s \<and> mset (started s) = mset (running s) + mset (finished s) \<and>
    length (running s) \<le> max sz 1 \<and> holders s \<le> 1 \<and> (joined s \<longrightarrow> mset (finished s) = mset (submitted s))"
proof -
  have ok: "pool_ok (max sz 1) s" by (rule pool_reachable [OF assms])
  moreover have "channel s = []" if j: "joined s"
  proof -
    have "workers s \<noteq> []" using ok by (auto simp: pool_ok_def)
    then have "Exited \<in> set (workers s)" using j by (cases "workers s") (auto simp: joined_def)
    then show ?thesis using ok by (simp add: pool_ok_def)
  qed
  ultimately show ?thesis
    using length_running [of s] joined_running [of s] by (auto simp: pool_ok_def)
qed

subsection \<open>Shutdown\<close>

text \<open>The steps the workers can still take when nothing is submitted any more.\<close>

fun worker_work :: "'j worker \<Rightarrow> nat" where
  "worker_work Exited = 0"
| "worker_work Holds = 1"
| "worker_work Waits = 2"
| "worker_work (Runs j) = 3"

definition pending_work :: "'j pool \<Rightarrow> nat" where
  "pending_work s = 3 * length (channel s) + sum_list (map worker_work (workers s))"

lemma sum_work_update:
  "i < length ws \<Longrightarrow> sum_list (map worker_work (ws[i := w])) + worker_work (ws ! i) =
     sum_list (map worker_work ws) + worker_work w"
proof (induction ws arbitrary: i)
  case (Cons v ws)
  then show ?case by (cases i) auto
qed simp

lemma work_decreases: "work i s t \<Longrightarrow> pending_work t < pending_work s"
proof (erule work_cases, goal_cases)
  case 1
  then show ?case using sum_work_update [of i "workers s" Holds] by (simp add: pending_work_def)
next
  case (2 j js)
  then show ?case using sum_work_update [of i "workers s" "Runs j"] by (simp add: pending_work_def)
next
  case 3
  then show ?case using sum_work_update [of i "workers s" Exited] by (simp add: pending_work_def)
next
  case (4 j)
  then show ?case using sum_work_update [of i "workers s" Waits] by (simp add: pending_work_def)
qed

lemma work_keeps_closed: "work i s t \<Longrightarrow> sender_open t = sender_open s"
  by (erule work_cases) auto

lemma worker_enabled:
  assumes "\<not> sender_open s" and "\<not> joined s"
  shows "\<exists>i t. work i s t"
proof (cases "Holds \<in> set (workers s)")
  case True
  then obtain i where i: "i < length (workers s)" "workers s ! i = Holds" by (auto simp: in_set_conv_nth)
  show ?thesis using receives [OF i] closes [OF i] assms(1) by (cases "channel s") blast+
next
  case False
  obtain w where w: "w \<in> set (workers s)" "w \<noteq> Exited"
    using assms by (auto simp: joined_def list_all_iff)
  then obtain i where i: "i < length (workers s)" "workers s ! i = w" by (auto simp: in_set_conv_nth)
  show ?thesis
  proof (cases w)
    case Waits
    then show ?thesis using locks [OF i(1) _ False] i(2) by blast
  next
    case Holds
    then show ?thesis using w(1) False by simp
  next
    case (Runs j)
    then show ?thesis using returns [OF i(1)] i(2) by blast
  qed (use w(2) in simp)
qed

text \<open>
  C26: Dropping the pool terminates and is never stuck: from any state whose sender is dropped
  the workers can take only finitely many more steps (the measure bounds them), as long as
  some worker has not left some worker can take a step, and a state in which none can is one
  where the join returns.
\<close>

theorem pool_shutdown_terminates:
  assumes "\<not> sender_open s"
  shows "(\<forall>i t. work i s t \<longrightarrow> pending_work t < pending_work s \<and> \<not> sender_open t) \<and>
    (\<not> joined s \<longrightarrow> (\<exists>i t. work i s t)) \<and>
    (\<exists>t. (\<lambda>s t. \<exists>i. work i s t)\<^sup>*\<^sup>* s t \<and> joined t)"
proof -
  have "\<exists>t. (\<lambda>s t. \<exists>i. work i s t)\<^sup>*\<^sup>* s t \<and> joined t"
    using assms
  proof (induction "pending_work s" arbitrary: s rule: less_induct)
    case less
    show ?case
    proof (cases "joined s")
      case False
      then obtain i u where u: "work i s u" using worker_enabled less.prems by blast
      then obtain t where "(\<lambda>s t. \<exists>i. work i s t)\<^sup>*\<^sup>* u t" "joined t"
        using less work_decreases work_keeps_closed by blast
      moreover have "(\<lambda>s t. \<exists>i. work i s t) s u" using u by blast
      ultimately show ?thesis using converse_rtranclp_into_rtranclp [of "\<lambda>s t. \<exists>i. work i s t" s u t] by blast
    qed blast
  qed
  then show ?thesis using assms work_decreases work_keeps_closed worker_enabled by blast
qed

theorem pool_shutdown_terminates_witness:
  "\<exists>t. (\<lambda>s t. \<exists>i. work i s t)\<^sup>*\<^sup>* (drop_sender (execute ''job'' (pool_new 2))) t \<and> joined t"
  using pool_shutdown_terminates [of "drop_sender (execute ''job'' (pool_new 2))"]
  by (simp add: drop_sender_def)

subsection \<open>The pool is a bounded executor\<close>

text \<open>What can be seen of a pool: jobs accepted, begun and ended, and the drop of the sender.\<close>

datatype 'j event = Submitted 'j | Started 'j | Finished 'j | Dropped

inductive pool_event :: "'j pool \<Rightarrow> 'j event option \<Rightarrow> 'j pool \<Rightarrow> bool" where
  submitted_event: "sender_open s \<Longrightarrow> pool_event s (Some (Submitted j)) (execute j s)"
| refused: "\<not> sender_open s \<Longrightarrow> pool_event s None (execute j s)"
| dropped_event: "sender_open s \<Longrightarrow> pool_event s (Some Dropped) (drop_sender s)"
| dropped_already: "\<not> sender_open s \<Longrightarrow> pool_event s None (drop_sender s)"
| started_event: "work i s t \<Longrightarrow> started t = started s @ [j] \<Longrightarrow> pool_event s (Some (Started j)) t"
| finished_event: "work i s t \<Longrightarrow> finished t = finished s @ [j] \<Longrightarrow> pool_event s (Some (Finished j)) t"
| silent: "work i s t \<Longrightarrow> started t = started s \<Longrightarrow> finished t = finished s \<Longrightarrow> pool_event s None t"

text \<open>
  The specification, without workers and lock: a first-in first-out queue of accepted jobs, of
  which at most \<open>n\<close> run at a time; a closed executor accepts no more jobs but goes on with
  those it has.
\<close>

record 'j executor =
  ex_queue :: "'j list"
  ex_running :: "'j multiset"
  ex_open :: bool

inductive exec_step :: "nat \<Rightarrow> 'j executor \<Rightarrow> 'j event option \<Rightarrow> 'j executor \<Rightarrow> bool" for n where
  accepts: "ex_open a \<Longrightarrow> exec_step n a (Some (Submitted j)) (a\<lparr>ex_queue := ex_queue a @ [j]\<rparr>)"
| starts: "ex_queue a = j # js \<Longrightarrow> size (ex_running a) < n \<Longrightarrow>
    exec_step n a (Some (Started j)) (a\<lparr>ex_queue := js, ex_running := add_mset j (ex_running a)\<rparr>)"
| finishes: "j \<in># ex_running a \<Longrightarrow> exec_step n a (Some (Finished j)) (a\<lparr>ex_running := ex_running a - {#j#}\<rparr>)"
| shuts: "ex_open a \<Longrightarrow> exec_step n a (Some Dropped) (a\<lparr>ex_open := False\<rparr>)"

inductive_cases exec_step_cases: "exec_step n a l b"

definition idle_executor :: "'j executor" where
  "idle_executor = \<lparr>ex_queue = [], ex_running = {#}, ex_open = True\<rparr>"

definition executor_of :: "'j pool \<Rightarrow> 'j executor" where
  "executor_of s = \<lparr>ex_queue = channel s, ex_running = mset (running s), ex_open = sender_open s\<rparr>"

lemma executor_of_sel [simp]:
  "ex_queue (executor_of s) = channel s" "ex_running (executor_of s) = mset (running s)"
  "ex_open (executor_of s) = sender_open s"
  by (simp_all add: executor_of_def)

lemma executor_of_new: "executor_of (pool_new sz) = idle_executor"
  by (simp add: executor_of_def idle_executor_def running_def)

text \<open>What one step of a worker does to the abstraction.\<close>

lemma mset_running_update:
  "i < length (workers s) \<Longrightarrow> mset (running (s\<lparr>workers := (workers s)[i := w]\<rparr>)) + mset (job_of (workers s ! i)) =
     mset (running s) + mset (job_of w)"
  by (simp add: running_def mset_job_update)

lemma idle_worker_room:
  assumes "i < length (workers s)" and "job_of (workers s ! i) = []"
  shows "length (running s) < length (workers s)"
proof -
  let ?t = "s\<lparr>workers := (workers s)[i := Runs undefined]\<rparr>"
  have "mset (running ?t) = mset (running s) + {#undefined#}"
    using mset_running_update [OF assms(1), of "Runs undefined"] assms(2) by simp
  then have "length (running ?t) = length (running s) + 1" by (metis size_mset size_union size_single)
  then show ?thesis using length_running [of ?t] by simp
qed

lemma work_silent: "work i s t \<Longrightarrow> started t = started s \<Longrightarrow> finished t = finished s \<Longrightarrow> executor_of t = executor_of s"
proof (erule work_cases, goal_cases)
  case 1
  then show ?case using mset_running_update [of i s Holds] by (simp add: executor_of_def running_def)
next
  case 3
  then show ?case using mset_running_update [of i s Exited] by (simp add: executor_of_def running_def)
qed simp_all

lemma work_starts:
  assumes "work i s t" and "started t = started s @ [j]"
  shows "\<exists>js. channel s = j # js \<and> executor_of t = (executor_of s)\<lparr>ex_queue := js, ex_running := add_mset j (mset (running s))\<rparr>
    \<and> length (running s) < length (workers s)"
  using assms(1)
proof cases
  case (receives j' js)
  then have "j' = j" using assms(2) by simp
  then show ?thesis
    using receives mset_job_update [OF receives(2), of "Runs j"] idle_worker_room [OF receives(2)]
    by (simp add: executor_of_def running_def)
qed (use assms(2) in simp_all)

lemma work_finishes:
  assumes "work i s t" and "finished t = finished s @ [j]"
  shows "j \<in># mset (running s) \<and> executor_of t = (executor_of s)\<lparr>ex_running := mset (running s) - {#j#}\<rparr>"
  using assms(1)
proof cases
  case (returns j')
  then have j: "j' = j" using assms(2) by simp
  have m: "mset (running s) = add_mset j (mset (running t))"
    using returns mset_job_update [OF returns(2), of Waits] by (simp add: running_def j)
  have "channel t = channel s" "sender_open t = sender_open s" using returns(1) by simp_all
  then show ?thesis by (simp add: executor_of_def m)
qed (use assms(2) in simp_all)

lemma pool_step_event: "pool_step s t \<longleftrightarrow> (\<exists>l. pool_event s l t)"
proof
  assume "pool_step s t"
  then show "\<exists>l. pool_event s l t"
  proof cases
    case (works i)
    from works have "started t = started s \<and> finished t = finished s \<or> (\<exists>j. started t = started s @ [j]) \<or>
        (\<exists>j. finished t = finished s @ [j])" by cases simp_all
    then show ?thesis
      using silent [OF works] started_event [OF works] finished_event [OF works] by blast
  qed (cases "sender_open s"; auto intro: submitted_event refused dropped_event dropped_already)+
qed (auto elim!: pool_event.cases intro: pool_step.intros)

text \<open>Every step of the pool is a step of the executor, or is not seen there.\<close>

interpretation pool_executor: simulation pool_event "exec_step n" "\<lambda>s a. pool_ok n s \<and> a = executor_of s" for n
proof unfold_locales
  fix s :: "'j pool" and a l t
  assume rel: "pool_ok n s \<and> a = executor_of s" and ev: "pool_event s l t"
  have "exec_step n (executor_of s) l (executor_of t) \<or> l = None \<and> executor_of t = executor_of s"
    using ev
  proof cases
    case (submitted_event j)
    have "executor_of t = (executor_of s)\<lparr>ex_queue := ex_queue (executor_of s) @ [j]\<rparr>"
      using submitted_event by (simp add: execute_def executor_of_def running_def)
    then show ?thesis using submitted_event exec_step.accepts [of "executor_of s" n j] by simp
  next
    case (refused j)
    then show ?thesis by (simp add: execute_def)
  next
    case dropped_event
    have "executor_of t = (executor_of s)\<lparr>ex_open := False\<rparr>"
      using dropped_event by (simp add: drop_sender_def executor_of_def running_def)
    then show ?thesis using dropped_event exec_step.shuts [of "executor_of s" n] by simp
  next
    case dropped_already
    then show ?thesis by (simp add: drop_sender_def executor_of_def running_def)
  next
    case (started_event i j)
    obtain js where w: "channel s = j # js" "length (running s) < length (workers s)"
      "executor_of t = (executor_of s)\<lparr>ex_queue := js, ex_running := add_mset j (mset (running s))\<rparr>"
      using work_starts [OF started_event(2,3)] by blast
    have "length (workers s) = n" using rel by (simp add: pool_ok_def)
    then show ?thesis unfolding started_event(1) w(3)
      using exec_step.starts [of "executor_of s" j js n] w(1,2) by simp
  next
    case (finished_event i j)
    from work_finishes [OF finished_event(2,3)] show ?thesis
      using exec_step.finishes [of j "executor_of s" n] unfolding finished_event(1) by simp
  next
    case (silent i)
    then show ?thesis using work_silent by blast
  qed
  then have "trace (exec_step n) (executor_of s) (visible l) (executor_of t)"
    by (auto simp: trace_nil intro: trace_one)
  then show "\<exists>b. trace (exec_step n) a (visible l) b \<and> pool_ok n t \<and> b = executor_of t"
    using rel pool_step_ok pool_step_event ev by blast
qed

text \<open>
  Every step of the executor is a run of the pool. The runs used here are those in which no
  worker keeps the lock while it waits, and none leaves.
\<close>

definition at_rest :: "nat \<Rightarrow> 'j executor \<Rightarrow> 'j pool \<Rightarrow> bool" where
  "at_rest n a s = (length (workers s) = n \<and> a = executor_of s \<and> Holds \<notin> set (workers s) \<and> Exited \<notin> set (workers s))"

lemma set_update_rest: "x \<notin> set ws \<Longrightarrow> w \<noteq> x \<Longrightarrow> x \<notin> set (ws[i := w])"
  using set_update_subset_insert [of ws i w] by auto

lemma all_run: "(\<forall>w \<in> set ws. \<exists>j. w = Runs j) \<Longrightarrow> length (concat (map job_of ws)) = length ws"
  by (induction ws) auto

lemma at_rest_starts:
  assumes rest: "at_rest n a s" and q: "channel s = j # js" and room: "length (running s) < n"
  shows "\<exists>u. trace pool_event s [Started j] u \<and> at_rest n (a\<lparr>ex_queue := js, ex_running := add_mset j (ex_running a)\<rparr>) u"
proof -
  have "\<not> (\<forall>w \<in> set (workers s). \<exists>j. w = Runs j)"
    using all_run [of "workers s"] room rest by (auto simp: at_rest_def running_def)
  then obtain w where "w \<in> set (workers s)" "\<nexists>j. w = Runs j" by blast
  then have "Waits \<in> set (workers s)" using rest by (cases w rule: worker.exhaust) (simp_all add: at_rest_def)
  then obtain i where i: "i < length (workers s)" "workers s ! i = Waits" by (auto simp: in_set_conv_nth)
  let ?t = "s\<lparr>workers := (workers s)[i := Holds]\<rparr>"
  let ?u = "?t\<lparr>workers := (workers ?t)[i := Runs j], channel := js, started := started ?t @ [j]\<rparr>"
  have one: "pool_event s None ?t"
    using locks [OF i] rest by (intro silent [of i]) (simp_all add: at_rest_def)
  have two: "work i ?t ?u" using i q by (intro receives) simp_all
  have "pool_event ?t (Some (Started j)) ?u" by (rule started_event [OF two]) simp
  with trace_one [where step = pool_event, OF one] have "trace pool_event s [Started j] ?u" using trace_step by fastforce
  moreover have "at_rest n (a\<lparr>ex_queue := js, ex_running := add_mset j (ex_running a)\<rparr>) ?u"
    using rest i mset_job_update [OF i(1), of "Runs j"]
    by (simp add: at_rest_def executor_of_def running_def set_update_rest)
  ultimately show ?thesis by blast
qed

lemma at_rest_finishes:
  assumes rest: "at_rest n a s" and j: "j \<in> set (running s)"
  shows "\<exists>u. trace pool_event s [Finished j] u \<and> at_rest n (a\<lparr>ex_running := ex_running a - {#j#}\<rparr>) u"
proof -
  obtain w where "w \<in> set (workers s)" "j \<in> set (job_of w)" using j by (auto simp: running_def)
  then have "Runs j \<in> set (workers s)" by (cases w rule: worker.exhaust) simp_all
  then obtain i where i: "i < length (workers s)" "workers s ! i = Runs j" by (auto simp: in_set_conv_nth)
  let ?u = "s\<lparr>workers := (workers s)[i := Waits], finished := finished s @ [j]\<rparr>"
  have w: "work i s ?u" using i by (rule returns)
  then have ev: "pool_event s (Some (Finished j)) ?u" by (rule finished_event) simp
  have "at_rest n (a\<lparr>ex_running := ex_running a - {#j#}\<rparr>) ?u"
    using rest work_finishes [OF w, of j] by (simp add: at_rest_def set_update_rest)
  then show ?thesis using trace_one [where step = pool_event, OF ev] by auto
qed

interpretation executor_pool: simulation "exec_step n" pool_event "at_rest n" for n
proof unfold_locales
  fix a :: "'j executor" and s l b
  assume rest: "at_rest n a s" and ev: "exec_step n a l b"
  then have a: "a = executor_of s" "length (workers s) = n" by (simp_all add: at_rest_def)
  from ev show "\<exists>t. trace pool_event s (visible l) t \<and> at_rest n b t"
  proof cases
    case (accepts j)
    then have "trace pool_event s (visible l) (execute j s)"
      using trace_one [where step = pool_event, OF submitted_event [of s j]] a by simp
    moreover have "at_rest n b (execute j s)"
      using accepts rest by (simp add: at_rest_def execute_def executor_of_def running_def)
    ultimately show ?thesis by blast
  next
    case (starts j js)
    then show ?thesis using at_rest_starts [OF rest, of j js] a by simp
  next
    case (finishes j)
    then show ?thesis using at_rest_finishes [OF rest, of j] a by simp
  next
    case shuts
    then have "trace pool_event s (visible l) (drop_sender s)"
      using trace_one [where step = pool_event, OF dropped_event [of s]] a by simp
    moreover have "at_rest n b (drop_sender s)"
      using shuts rest by (simp add: at_rest_def drop_sender_def executor_of_def running_def)
    ultimately show ?thesis by blast
  qed
qed

text \<open>
  C12: The pool is a bounded first-in first-out executor: the sequences of events (a job
  accepted, begun, ended; the sender dropped) that its threads can produce in any
  interleaving are exactly those of a queue served by \<open>max size 1\<close> servers. So a job begins
  only after it was accepted and in that order, ends once and only after it began, no more
  than \<open>max size 1\<close> are between begin and end, and the lock and the workers' loop rule out
  nothing such an executor could do.
\<close>

theorem pool_refines_executor:
  "(\<exists>s. trace pool_event (pool_new sz) es s) \<longleftrightarrow> (\<exists>a. trace (exec_step (max sz 1)) idle_executor es a)"
proof
  assume "\<exists>s. trace pool_event (pool_new sz) es s"
  then obtain s where "trace pool_event (pool_new sz) es s" ..
  from pool_executor.trace_simulated [OF this, of "max sz 1" idle_executor]
  show "\<exists>a. trace (exec_step (max sz 1)) idle_executor es a"
    using pool_new_ok [of sz] executor_of_new [of sz] by metis
next
  assume "\<exists>a. trace (exec_step (max sz 1)) idle_executor es a"
  then obtain a where *: "trace (exec_step (max sz 1)) idle_executor es a" ..
  have "at_rest (max sz 1) idle_executor (pool_new sz)"
    by (simp add: at_rest_def executor_of_new del: executor_of_sel)
  with executor_pool.trace_simulated [OF * this]
  show "\<exists>s. trace pool_event (pool_new sz) es s" by blast
qed

definition busy_pool :: "string pool" where
  "busy_pool = execute ''a'' (execute ''b'' (pool_new 0))"

lemma busy_pool_reachable: "pool_step\<^sup>*\<^sup>* (pool_new 0) busy_pool"
  unfolding busy_pool_def by (meson rtranclp.rtrancl_into_rtrancl rtranclp.rtrancl_refl submits)

theorem pool_runs_every_job_once_witness:
  "submitted busy_pool = started busy_pool @ channel busy_pool \<and> holders busy_pool \<le> 1"
  using pool_runs_every_job_once [OF busy_pool_reachable] by blast

end
