(* ===== verification/Spec2Isabelle.thy ===== *)
theory Spec2Isabelle
  imports Program Proxy_Concurrency Pool
begin

text \<open>
  NWarp is a web server: it serves static files, forwards requests to upstream servers and
  runs WASM handlers, over HTTP/1.1, HTTP/2 and HTTP/3, and reloads its routes while it runs.
  This library models its Rust sources (under src/src/) and states what makes them correct.

  \<^bold>\<open>The program.\<close> \<open>main\<close> reads the configuration, builds the runtime and calls
  \<open>listener::run\<close>, which builds the proxy and the WASM table, binds, and starts the accept
  loop, a health checker, the watcher of the configuration file and, with TLS, the HTTPS and
  the QUIC listener. Each connection is a task. Its requests become one internal \<open>Request\<close>,
  which goes to the upstream of the longest matching proxy prefix, else to the WASM handler of
  the longest matching prefix, else to a file under the document root; each answer leaves an
  access line in the log. The tasks share the two tables (each behind an atomic pointer the
  watcher replaces), and in each proxy table the flags and counters of its routes.

  \<^bold>\<open>The theories\<close>, and the file each one models.
  \<^item> \<open>Prelude\<close>: machine types, collections of facts, list facts; the interfaces
    \<open>step_system\<close> (a transition relation with an inductive invariant), \<open>simulation\<close> (a labelled
    system whose runs have the visible events of runs of another) and \<open>prefix_table\<close> (longest-prefix routing).
  \<^item> \<open>Rust_Utf8\<close>, \<open>Rust_Str\<close>, \<open>Rust_Io\<close>, \<open>Rust_Map\<close>: what the code uses of the standard library and
    of Tokio's streams: UTF-8 decoding, \<open>str\<close> methods, number parsing and printing, I/O
    results, readers and writers that fail or fall silent, paths, hash maps (interface
    \<open>hash_map\<close>).
  \<^item> \<open>Config\<close> (config/mod.rs): the record, \<open>parse_kv\<close>, \<open>load\<close>.
  \<^item> \<open>Request\<close> (http/request.rs), \<open>Response\<close> (http/response.rs), \<open>Router\<close> (http/router.rs): parsing and
    sanitising, responses and their wire form, static files.
  \<^item> \<open>Logging\<close> (logging/mod.rs): entries, files, standard output.
  \<^item> \<open>Proxy\<close>, \<open>Proxy_Relay\<close>, \<open>Proxy_Concurrency\<close> (proxy/mod.rs): the table, round robin and health
    checks; the forwarded request and the reply; picks of many tasks interleaved at every
    atomic operation.
  \<^item> \<open>Wasm\<close> (wasm/mod.rs) with the interface \<open>guest_memory\<close>, and \<open>Hello_Wasm\<close> (wasm/hello.wat of the
    repository), the guest that implements it.
  \<^item> \<open>Connection\<close> (server/connection.rs): one HTTP/1.x request from bytes to bytes and log lines.
  \<^item> \<open>Http2\<close> (http2/mod.rs) with the interface \<open>bridge\<close> it shares with \<open>Http3\<close> (http3/mod.rs);
    \<open>Tls\<close> (tls/mod.rs).
  \<^item> \<open>Listener\<close> (server/listener.rs): startup, and the server as a state machine of requests, picks,
    probes and reloads. \<open>Program\<close> (main.rs). \<open>Pool\<close> (server/pool.rs, which server/mod.rs does not
    declare: the running server does not contain it).

  A struct is a record with the code's fields, an atomic is a field, an enum or a place in a
  task is a datatype, a fallible call is a sum with the error on the left, and an operation
  that may never return is a poll or an option whose \<open>Pending\<close> or \<open>None\<close> says so. Functions
  return what they changed: the stream, the log calls in order, the table with its counters.

  \<^bold>\<open>What is shown.\<close>
  \<^item> Safety of the input: no sanitised path has two dots, a file is served only from under the
    document root (\<open>Request\<close>, \<open>Router\<close>, and from the wire on in this theory).
  \<^item> Routing: proxy, then WASM, then file; the longest prefix wins; with distinct prefixes the
    order of the hash map does not matter.
  \<^item> Load balancing: a pick returns the first healthy target of its lap, and none if all are
    unhealthy (only then, unless the counter wraps); picks are fair; a failed probe takes a target out. For concurrent picks: every
    index is in range, each returns within \<open>2 n + 2\<close> of its own steps for \<open>n\<close> targets, and
    whenever a pick has run alone, its result is that of the sequential function.
  \<^item> Round trips: rendering and parsing a request, percent-encoding and sanitising, a response
    and its split, and the composition of all of them through two servers, from an HTTP/2 or
    HTTP/3 frame to what its client receives (in this theory).
  \<^item> Log and errors: one access line per answered request with the status the client got; each
    failure has its own answer. HTTP/3 answers as HTTP/2, HTTP/2 files as HTTP/1.1.
  \<^item> The WASM boundary: for every value a guest returns, what the host reads or refuses.
  \<^item> Reload: the watcher's invariant, stability of the tables that requests still hold; the
    window between the two stores in which a request sees one new and one old table.
  \<^item> Termination: of a request whose client sends its head and does not stop reading, with
    guests that return and upstreams that can be dialled and written to; of the picks; of the
    pool's shutdown. The pool has exactly the traces of a first-in first-out executor.

  \<^bold>\<open>Parameters and hypotheses.\<close> Code outside the repository is an argument of the definitions that
  use it: the hash order and the Unicode lower-case table (\<open>std_params\<close>, hypothesis \<open>std_ok\<close>:
  every entry is visited once, lower-casing makes no line feed), the file system seen by each
  call (\<open>fs_sound\<close>: what can be read has a canonical path), the network, \<open>wasmi\<close>
  (\<open>guest_memory\<close>: memory reads and writes are bounded by the memory), \<open>http\<close> (\<open>http_ok\<close>: which
  heads the builder accepts), \<open>rustls\<close> (\<open>alpn_ok\<close>: the protocol chosen was offered by both),
  \<open>serde_json\<close> (\<open>json_ok\<close>: its output is one line), \<open>quinn\<close>, \<open>h2\<close>, \<open>h3\<close>: the results of the calls.
  What may never come is in the parameters: a read (\<open>Silent\<close>), a dial or a write to an upstream
  (\<open>Pending\<close>; \<open>net_answers\<close> excludes it), a guest function (\<open>guest_returns\<close> excludes it), a write to
  a client that stops reading (\<open>stalls\<close>; \<open>keeps_reading\<close> excludes it, \<open>unbroken\<close> is a client that
  takes the whole reply). The logger panics if standard output is closed (\<open>outputs_ok\<close> excludes
  it). Each hypothesis is met by a concrete instance in a witness.

  \<^bold>\<open>Bounds.\<close> Ports, statuses and times keep their width. The round-robin counter is a 64-bit word;
  fairness, and that a pick finds a healthy target if there is one, assume that it does not wrap
  during the lap considered (\<open>no_wrap\<close>), and \<open>pick_upstream_wraps\<close> shows what a wrap does. The facts on hello.wat assume a method and a
  path below \<open>2 ^ 29\<close> bytes, so that its 32-bit bump pointer does not wrap. No definition uses fuel: what may not end is a relation, an option or a poll.

  \<^bold>\<open>Not modelled.\<close> Standard output of the tasks (that of startup and of the logger is), allocation
  failure, the inside of the crates, scripts and packaging. In \<open>Listener\<close> one pick is one step;
  its finer interleaving is \<open>Proxy_Concurrency\<close>. The relaxed atomics are interleavings of
  whole operations; a reordering between two locations is not modelled. A parameter
  function answers equal calls equally, except where an index counts the calls.
\<close>

section \<open>Properties that span components\<close>

subsection \<open>From the wire to the file system\<close>

text \<open>
  C1: Whatever bytes a client sends, a request that reaches the static handler is answered
  with exactly one well-framed response whose status is the logged one, and if that status is
  200 the body is the contents of a file whose canonical path lies under the canonical
  document root (for a client that accepts the reply, a server name without line feed and a
  file system that does not change meanwhile).
\<close>

theorem wire_to_file_confined:
  assumes "parse (the_std W) input = Ready (Inr (req, rest))" and "the_fs W = (\<lambda>_. F)" and "fs_sound F"
    and "proxy_match_route pt (req_path req) = None" and "wasm_match_route wt (req_path req) = None"
    and "unbroken s" and "LF \<notin> set (server_name cfg)"
  shows "\<exists>c resp. handle_generic W cfg input s peer pt wt = Some c \<and> written (client c) = written s @ wire resp \<and>
    find_window (wire resp) (crlf @ crlf) = Some (length (response_head resp) - 4) \<and>
    logged c = [LAccess (req_method req) (req_path req) (status_code resp) peer] \<and>
    (status_code resp = 200 \<longrightarrow>
      (\<exists>target p. fs_read F target = Some (body resp) \<and> fs_canonicalize F target = Some p \<and>
         path_starts_with p (case fs_canonicalize F (document_root cfg) of None \<Rightarrow> document_root cfg | Some r \<Rightarrow> r)))"
proof -
  let ?resp = "route (the_fs W) req cfg"
  have "proxy_match_entry pt (req_path req) = None" using assms(4) by (simp add: proxy_match_entry_route)
  then have "handle_generic W cfg input s peer pt wt = Some \<lparr>client = s\<lparr>written := written s @ wire ?resp\<rparr>,
      logged = [LAccess (req_method req) (req_path req) (status_code ?resp) peer], table_after = pt\<rparr>"
    using assms(1,5) by (simp add: handle_generic_def serve_static_ok [OF assms(6)])
  moreover have "find_window (wire ?resp) (crlf @ crlf) = Some (length (response_head ?resp) - 4)"
    using wire_split [OF route_response_ok [OF assms(7)]] by simp
  ultimately show ?thesis
    using route_stays_inside [OF assms(3), of req cfg] by (auto simp: assms(2))
qed

theorem wire_to_file_confined_witness:
  "\<exists>c resp. handle_generic sample_world sample_cfg index_head open_sink ''p'' no_proxy hello_table = Some c \<and>
     written (client c) = wire resp \<and> logged c = [LAccess ''GET'' ''/'' (status_code resp) ''p'']"
proof -
  have name: "LF \<notin> set (server_name sample_cfg)" by (simp add: sample_cfg_def default_config_def)
  have fs: "the_fs sample_world = (\<lambda>_. sample_fs)" by (simp add: sample_world_def)
  have unmatched: "proxy_match_route no_proxy (req_path (get_request ''/'')) = None"
    "wasm_match_route hello_table (req_path (get_request ''/'')) = None" by simp_all
  obtain c resp where "handle_generic sample_world sample_cfg index_head open_sink ''p'' no_proxy hello_table = Some c"
      "written (client c) = written open_sink @ wire resp"
      "logged c = [LAccess (req_method (get_request ''/'')) (req_path (get_request ''/'')) (status_code resp) ''p'']"
    using wire_to_file_confined [OF parse_index_head fs sample_fs_sound unmatched open_sink_unbroken name] by blast
  then show ?thesis by (intro exI [of _ c] exI [of _ resp]) (simp add: open_sink_def)
qed

subsection \<open>A server behind a server\<close>

text \<open>
  An upstream that is itself this program: it reads the forwarded text from the connection,
  which stays open in the other direction, and answers what its handler writes.
\<close>

definition nwarp_upstream :: "('m, 'g) world \<Rightarrow> config \<Rightarrow> proxy_table \<Rightarrow> 'm wasm_table \<Rightarrow> network" where
  "nwarp_upstream W cfg pt wt = \<lparr>dial = (\<lambda>_. Ready (Inr ())), upstream_write = (\<lambda>_ _. Ready (Inr ())),
     upstream_reply = (\<lambda>a text.
       case handle_generic W cfg \<lparr>avail = text, ending = Silent\<rparr> open_sink ''front'' pt wt of
         None \<Rightarrow> ReplyTooLate | Some c \<Rightarrow> Replied (written (client c)))\<rparr>"

text \<open>What the front server fetches from a back server that serves the request from its files.\<close>

lemma fetch_from_nwarp:
  assumes "std_ok (the_std W)" and "the_net W = nwarp_upstream W2 cfg2 pt2 wt2"
    and "request_wf (the_std W2) req" and "header_wf (''X-Forwarded-For'', peer)"
    and "pick_upstream r = (Some target, r')" and "header_wf (''Host'', strip_scheme target)"
    and "proxy_match_route pt2 (sanitize_path (req_path req)) = None"
    and "wasm_match_route wt2 (sanitize_path (req_path req)) = None"
  shows "\<exists>req2. req_method req2 = req_method req \<and> req_path req2 = sanitize_path (req_path req) \<and>
    fetch_from_upstream (the_std W) (the_net W) req r peer = (Ready (Inr (wire (route (the_fs W2) req2 cfg2))), r')"
proof -
  obtain h where h: "parse (the_std W2) \<lparr>avail = request_text (the_std W) req (strip_scheme target) peer, ending = Silent\<rparr> =
      Ready (Inr (\<lparr>req_method = req_method req, req_path = sanitize_path (req_path req),
                   req_version = ''HTTP/1.1'', req_headers = h\<rparr>, \<lparr>avail = [], ending = Silent\<rparr>))"
    using forwarded_parse [OF assms(1,3,6,4), of Silent] by blast
  let ?req2 = "\<lparr>req_method = req_method req, req_path = sanitize_path (req_path req),
      req_version = ''HTTP/1.1'', req_headers = h\<rparr>"
  have "map_option (written \<circ> client) (handle_generic W2 cfg2
      \<lparr>avail = request_text (the_std W) req (strip_scheme target) peer, ending = Silent\<rparr> open_sink ''front'' pt2 wt2) =
      Some (wire (route (the_fs W2) ?req2 cfg2))"
    using h assms(7,8)
    by (simp add: handle_generic_def proxy_match_entry_route serve_static_ok [OF open_sink_unbroken]) (simp add: open_sink_def)
  then have "fetch_from_upstream (the_std W) (the_net W) req r peer = (Ready (Inr (wire (route (the_fs W2) ?req2 cfg2))), r')"
    by (auto simp: fetch_from_upstream_def assms(2,5) nwarp_upstream_def Let_def)
  then show ?thesis by (intro exI [of _ ?req2]) simp
qed

text \<open>
  C4: Chaining two servers: when an HTTP/2 or HTTP/3 request with a plain method and path and
  plain headers is proxied to an upstream that is this same program (with its own tables,
  files and hash order) and serves it from its files, then the client of the front server,
  over either protocol, gets the status and the whole body of the back server's response to
  the same method and the (once more sanitized) path, and the front logs that status and moves
  the counter of the picked route. The content type is lost: the front always says
  \<open>application/octet-stream\<close>, under its own server name.
\<close>

theorem chained_servers:
  assumes "std_ok (the_std W)" and "http_ok H" and "the_net W = nwarp_upstream W2 cfg2 pt2 wt2"
    and "request_wf (the_std W2) (h2_to_nwarp_request (the_std W) H fr)" and "header_wf (''X-Forwarded-For'', peer)"
    and "proxy_match_entry pt (fr_uri_path fr) = Some (i, r)"
    and "pick_upstream r = (Some target, r')" and "header_wf (''Host'', strip_scheme target)"
    and "proxy_match_route pt2 (sanitize_path (fr_uri_path fr)) = None"
    and "wasm_match_route wt2 (sanitize_path (fr_uri_path fr)) = None"
    and "LF \<notin> set (server_name cfg2)" and "header_value_ok (server_name cfg)"
    and "takes_head respond" and "takes_data respond" and "takes_end respond"
  shows "\<exists>req2 resp t2 t3 s2 s3. req_method req2 = fr_method fr \<and> req_path req2 = sanitize_path (fr_uri_path fr) \<and>
    resp = route (the_fs W2) req2 cfg2 \<and>
    h2_handle_stream W H cfg fr respond peer pt wt = Some t2 \<and> reply t2 = Some s2 \<and>
    h3_handle_stream W H cfg fr respond peer pt wt = Some t3 \<and> reply t3 = Some s3 \<and>
    got_head s3 = Some (status_code resp, [(''server'', server_name cfg), (''content-type'', ''application/octet-stream'')]) \<and>
    got_head s2 = Some (status_code resp, [(''server'', server_name cfg), (''content-type'', ''application/octet-stream''),
      (''content-length'', show_nat (length (body resp)))]) \<and>
    got_data s2 = body resp \<and> got_data s3 = body resp \<and> got_end s2 \<and> got_end s3 \<and>
    st_logged t2 = [LAccess (fr_method fr) (fr_uri_path fr) (status_code resp) peer] \<and> st_logged t3 = st_logged t2 \<and>
    st_table t2 = set_route i r' pt \<and> st_table t3 = set_route i r' pt"
proof -
  let ?req = "h2_to_nwarp_request (the_std W) H fr"
  have req [simp]: "req_method ?req = fr_method fr" "req_path ?req = fr_uri_path fr"
    by (simp_all add: h2_to_nwarp_request_def)
  obtain req2 where req2: "req_method req2 = fr_method fr" "req_path req2 = sanitize_path (fr_uri_path fr)"
      and fetch: "fetch_from_upstream (the_std W) (the_net W) ?req r peer = (Ready (Inr (wire (route (the_fs W2) req2 cfg2))), r')"
    using fetch_from_nwarp [OF assms(1,3,4,5,7,8)] assms(9,10) by auto
  let ?resp = "route (the_fs W2) req2 cfg2" and ?type = "''application/octet-stream''"
  have "split_raw_response (wire ?resp) = (status_code ?resp, body ?resp)"
    by (rule wire_recovered [OF route_response_ok [OF assms(11)]])
  then have a: "bridge_answer W cfg ?req peer pt wt =
      Some (answered ?req peer (set_route i r' pt) (status_code ?resp) ?type (body ?resp))"
    using assms(6) fetch by (simp add: bridge_answer_def)
  have heads: "build_head H (status_code ?resp) (h2_fields (status_code ?resp) ?type (body ?resp) cfg) =
        Some (status_code ?resp, h2_fields (status_code ?resp) ?type (body ?resp) cfg)"
      "build_head H (status_code ?resp) (h3_fields (status_code ?resp) ?type (body ?resp) cfg) =
        Some (status_code ?resp, h3_fields (status_code ?resp) ?type (body ?resp) cfg)"
    using assms(2,12) route_header_values [of "the_fs W2" req2 cfg2]
    by (simp_all add: http_ok_build h2_fields_def h3_fields_def show_nat_header_value octet_stream_value)
  note sent = h2.send_delivers [OF heads(1) assms(13-15)] h3.send_delivers [OF heads(2) assms(13-15)]
  let ?s2 = "respond\<lparr>got_head := Some (status_code ?resp, h2_fields (status_code ?resp) ?type (body ?resp) cfg),
      got_data := body ?resp, got_end := True\<rparr>"
    and ?s3 = "respond\<lparr>got_head := Some (status_code ?resp, h3_fields (status_code ?resp) ?type (body ?resp) cfg),
      got_data := body ?resp, got_end := True\<rparr>"
  let ?t = "\<lambda>s. \<lparr>reply = Some s, st_logged = [LAccess (fr_method fr) (fr_uri_path fr) (status_code ?resp) peer],
      st_table = set_route i r' pt\<rparr>"
  have t2: "h2_handle_stream W H cfg fr respond peer pt wt = Some (?t ?s2)"
    by (simp add: h2_handler_answer a deliver_def answered_def sent)
  have t3: "h3_handle_stream W H cfg fr respond peer pt wt = Some (?t ?s3)"
    by (simp add: h3_handler_answer h3_request_version bridge_answer_version a deliver_def answered_def sent)
  show ?thesis
    by (intro exI [of _ req2] exI [of _ ?resp] exI [of _ "?t ?s2"] exI [of _ "?t ?s3"] exI [of _ ?s2] exI [of _ ?s3] conjI req2 t2 t3)
      (simp_all add: h2_fields_def h3_fields_def)
qed

definition front_route :: proxy_route where
  "front_route = \<lparr>route_prefix = ''/'', targets = [\<lparr>addr = ''http://b:2'', healthy = True\<rparr>], counter = 0\<rparr>"

definition front_world :: "(unit, hello_store) world" where
  "front_world = sample_world\<lparr>the_net := nwarp_upstream sample_world sample_cfg no_proxy hello_table\<rparr>"

theorem chained_servers_witness:
  "\<exists>req2 t2 s2 t3 s3.
     h2_handle_stream front_world http_sample sample_cfg (frame_get ''/'') open_stream ''192.0.2.7:5'' \<lparr>pt_routes = [front_route]\<rparr>
       hello_table = Some t2 \<and> reply t2 = Some s2 \<and>
     h3_handle_stream front_world http_sample sample_cfg (frame_get ''/'') open_stream ''192.0.2.7:5'' \<lparr>pt_routes = [front_route]\<rparr>
       hello_table = Some t3 \<and> reply t3 = Some s3 \<and>
     req_path req2 = ''/'' \<and> got_data s2 = body (route (\<lambda>_. sample_fs) req2 sample_cfg) \<and> got_data s3 = got_data s2"
proof -
  have std: "the_std front_world = std_id" "the_net front_world = nwarp_upstream sample_world sample_cfg no_proxy hello_table"
      "the_fs sample_world = (\<lambda>_. sample_fs)"
    by (simp_all add: front_world_def sample_world_def)
  have "\<exists>r'. pick_upstream front_route = (Some ''http://b:2'', r')"
    by (simp add: pick_upstream_def front_route_def Let_def)
  then obtain r' where pick: "pick_upstream front_route = (Some ''http://b:2'', r')" ..
  have wf: "request_wf (the_std sample_world) (h2_to_nwarp_request (the_std front_world) http_sample (frame_get ''/''))"
    unfolding std sample_std by code_simp
  have peer: "header_wf (''X-Forwarded-For'', ''192.0.2.7:5'')" by code_simp
  have host: "header_wf (''Host'', strip_scheme ''http://b:2'')" by code_simp
  have entry: "proxy_match_entry \<lparr>pt_routes = [front_route]\<rparr> (fr_uri_path (frame_get ''/'')) = Some (0, front_route)" by code_simp
  have path: "sanitize_path ''/'' = ''/''" by code_simp
  have "LF \<notin> set (server_name sample_cfg)" by (simp add: sample_cfg_def default_config_def)
  then show ?thesis
    using chained_servers [OF _ http_sample_ok std(2) wf peer entry pick host, where cfg = sample_cfg and respond = open_stream and wt = hello_table]
      std_id_ok sample_server_name unfolding std frame_get_sel path by auto
qed

end
